theory Spec2Isabelle
  imports Main
begin

section \<open>Strings\<close>

text \<open>
  The script \<^verbatim>\<open>_tasks/sync-proposal-data.ts\<close> works on JavaScript strings. They are
  modelled as \<^typ>\<open>string\<close>; one \<^typ>\<open>char\<close> stands for one code unit below \<^verbatim>\<open>0x100\<close>, so the
  model covers the strings of the Latin-1 range. On this range \<^verbatim>\<open>toLowerCase\<close> maps the
  capitals \<^verbatim>\<open>A\<close> to \<^verbatim>\<open>Z\<close> and \<^verbatim>\<open>0xC0\<close> to \<^verbatim>\<open>0xDE\<close> (the multiplication sign \<^verbatim>\<open>0xD7\<close> apart) to
  the code unit \<^verbatim>\<open>0x20\<close> above, and leaves every other code unit as it is.
\<close>

definition latin1Capitals :: string where
  "latin1Capitals =
     [CHR 0xC0, CHR 0xC1, CHR 0xC2, CHR 0xC3, CHR 0xC4, CHR 0xC5, CHR 0xC6, CHR 0xC7, CHR 0xC8, CHR 0xC9,
      CHR 0xCA, CHR 0xCB, CHR 0xCC, CHR 0xCD, CHR 0xCE, CHR 0xCF, CHR 0xD0, CHR 0xD1, CHR 0xD2, CHR 0xD3,
      CHR 0xD4, CHR 0xD5, CHR 0xD6, CHR 0xD8, CHR 0xD9, CHR 0xDA, CHR 0xDB, CHR 0xDC, CHR 0xDD, CHR 0xDE]"

definition latin1Smalls :: string where
  "latin1Smalls =
     [CHR 0xE0, CHR 0xE1, CHR 0xE2, CHR 0xE3, CHR 0xE4, CHR 0xE5, CHR 0xE6, CHR 0xE7, CHR 0xE8, CHR 0xE9,
      CHR 0xEA, CHR 0xEB, CHR 0xEC, CHR 0xED, CHR 0xEE, CHR 0xEF, CHR 0xF0, CHR 0xF1, CHR 0xF2, CHR 0xF3,
      CHR 0xF4, CHR 0xF5, CHR 0xF6, CHR 0xF8, CHR 0xF9, CHR 0xFA, CHR 0xFB, CHR 0xFC, CHR 0xFD, CHR 0xFE]"

definition toLowerChar :: "char \<Rightarrow> char" where
  "toLowerChar c =
     (case map_of (zip (''ABCDEFGHIJKLMNOPQRSTUVWXYZ'' @ latin1Capitals)
                       (''abcdefghijklmnopqrstuvwxyz'' @ latin1Smalls)) c of
        None \<Rightarrow> c
      | Some d \<Rightarrow> d)"

definition toLowerCase :: "string \<Rightarrow> string" where
  "toLowerCase s = map toLowerChar s"

definition startsWith :: "string \<Rightarrow> string \<Rightarrow> bool" where
  "startsWith s p = (take (length p) s = p)"

definition endsWith :: "string \<Rightarrow> string \<Rightarrow> bool" where
  "endsWith s p = (length p \<le> length s \<and> drop (length s - length p) s = p)"

text \<open>\<^verbatim>\<open>s.slice(1)\<close> and \<^verbatim>\<open>s.slice(0, -1)\<close>: both give the empty string on the empty string.\<close>

definition slice_from1 :: "string \<Rightarrow> string" where
  "slice_from1 s = drop 1 s"

definition slice_to_last :: "string \<Rightarrow> string" where
  "slice_to_last s = take (length s - 1) s"

text \<open>
  \<^verbatim>\<open>s.split(sep)\<close> for a separator string: the pieces between the occurrences of the
  separator, found from the left and not overlapping. \<open>splitFrom sep acc s\<close> has read
  \<open>acc\<close> of the current piece. The empty separator splits into single code units.
\<close>

function splitFrom :: "string \<Rightarrow> string \<Rightarrow> string \<Rightarrow> string list" where
  "splitFrom sep acc [] = [acc]"
| "splitFrom sep acc (c # cs) =
     (if sep \<noteq> [] \<and> take (length sep) (c # cs) = sep
      then acc # splitFrom sep [] (drop (length sep) (c # cs))
      else splitFrom sep (acc @ [c]) cs)"
  by pat_completeness auto
termination
  by (relation "measure (\<lambda>(sep, acc, s). length s)") auto

definition split :: "string \<Rightarrow> string \<Rightarrow> string list" where
  "split s sep = (if sep = [] then map (\<lambda>c. [c]) s else splitFrom sep [] s)"

text \<open>
  \<^verbatim>\<open>s.replace(pat, by)\<close> with a string pattern replaces the first occurrence only.
\<close>

fun replaceFirst :: "string \<Rightarrow> string \<Rightarrow> string \<Rightarrow> string" where
  "replaceFirst pat by' [] = (if pat = [] then by' else [])"
| "replaceFirst pat by' (c # cs) =
     (if take (length pat) (c # cs) = pat then by' @ drop (length pat) (c # cs)
      else c # replaceFirst pat by' cs)"

section \<open>Regular expressions\<close>

text \<open>
  The script uses four regular expressions. They are written here as syntax trees and run
  by a backtracking matcher that follows the order in which the ECMAScript matcher tries
  its alternatives: a greedy quantifier tries one more iteration first, a lazy one tries
  to stop first, and an iteration of a quantifier that consumes nothing is rejected.
\<close>

datatype cls = CChar char | CSet string | CSpace | CNonSpace

datatype rx =
    Chr char
  | Lit string
  | Dot
  | Cls "cls list"
  | Seq rx rx
  | Grp nat rx
  | Star bool rx
  | Opt rx

definition OneOrMore :: "rx \<Rightarrow> rx" where
  "OneOrMore r = Seq r (Star True r)"

definition isLineTerminator :: "char \<Rightarrow> bool" where
  "isLineTerminator c = (c = CHR 0x0A \<or> c = CHR 0x0D)"

definition isWhiteSpace :: "char \<Rightarrow> bool" where
  "isWhiteSpace c = (c \<in> set [CHR 0x09, CHR 0x0A, CHR 0x0B, CHR 0x0C, CHR 0x0D, CHR 0x20, CHR 0xA0])"

fun inCls :: "char \<Rightarrow> cls \<Rightarrow> bool" where
  "inCls c (CChar d) = (c = d)"
| "inCls c (CSet cs) = (c \<in> set cs)"
| "inCls c CSpace = isWhiteSpace c"
| "inCls c CNonSpace = (\<not> isWhiteSpace c)"

text \<open>
  A capture is kept as the input where its group began and the input where it ended; the
  captured text is the difference.
\<close>

type_synonym caps = "(nat \<times> string \<times> string) list"

text \<open>
  \<open>consumed s s'\<close>: \<open>s'\<close> is what is left of the input \<open>s\<close> after at least one code unit
  was read.
\<close>

fun consumed :: "string \<Rightarrow> string \<Rightarrow> bool" where
  "consumed [] s' = False"
| "consumed (c # cs) s' = (if s' = cs then True else consumed cs s')"

text \<open>
  \<open>ms r (s, g)\<close>: the ways \<open>r\<close> matches a prefix of \<open>s\<close>, in the matcher's order of
  preference, each as the rest of the input and the captures made so far (the last
  capture of a group stands first).
\<close>

function ms :: "rx \<Rightarrow> string \<times> caps \<Rightarrow> (string \<times> caps) list" where
  "ms (Chr c) st =
     (case fst st of [] \<Rightarrow> [] | x # xs \<Rightarrow> if x = c then [(xs, snd st)] else [])"
| "ms (Lit w) st =
     (if take (length w) (fst st) = w then [(drop (length w) (fst st), snd st)] else [])"
| "ms Dot st =
     (case fst st of [] \<Rightarrow> [] | x # xs \<Rightarrow> if isLineTerminator x then [] else [(xs, snd st)])"
| "ms (Cls cs) st =
     (case fst st of [] \<Rightarrow> [] | x # xs \<Rightarrow> if list_ex (inCls x) cs then [(xs, snd st)] else [])"
| "ms (Seq a b) st = concat (map (ms b) (ms a st))"
| "ms (Grp n a) st = map (\<lambda>st'. (fst st', (n, fst st, fst st') # snd st')) (ms a st)"
| "ms (Star greedy a) st =
     (let more = concat (map (ms (Star greedy a))
                   (filter (\<lambda>st'. consumed (fst st) (fst st')) (ms a st)))
      in if greedy then more @ [st] else st # more)"
| "ms (Opt a) st = filter (\<lambda>st'. consumed (fst st) (fst st')) (ms a st) @ [st]"
  by pat_completeness auto
termination
proof (relation "measures [\<lambda>(r, st). size r, \<lambda>(r, st). length (fst st)]")
  have shorter: "consumed s s' \<Longrightarrow> length s' < length s" for s s'
    by (induction s) (auto split: if_splits)
  fix greedy a st x
  assume "x \<in> set (filter (\<lambda>st'. consumed (fst st) (fst st')) (ms a st))"
  then have "length (fst x) < length (fst st)"
    by (simp add: shorter)
  then show "((Star greedy a, x), Star greedy a, st)
      \<in> measures [\<lambda>(r, st). size r, \<lambda>(r, st). length (fst st)]"
    by simp
qed auto

text \<open>The result of a successful match: where it starts, the matched text, the captures.\<close>

record matchres =
  index :: nat
  whole :: string
  groups :: caps

definition group :: "matchres \<Rightarrow> nat \<Rightarrow> string option" where
  "group m n =
     (case map_of (groups m) n of
        None \<Rightarrow> None
      | Some be \<Rightarrow> Some (take (length (fst be) - length (snd be)) (fst be)))"

text \<open>The leftmost match of \<open>r\<close> in \<open>s\<close>, where \<open>s\<close> starts at index \<open>i\<close> of the input.\<close>

fun search :: "rx \<Rightarrow> nat \<Rightarrow> string \<Rightarrow> matchres option" where
  "search r i [] =
     (case ms r ([], []) of
        [] \<Rightarrow> None
      | st # _ \<Rightarrow> Some \<lparr>index = i, whole = [], groups = snd st\<rparr>)"
| "search r i (c # cs) =
     (case ms r (c # cs, []) of
        [] \<Rightarrow> search r (Suc i) cs
      | st # _ \<Rightarrow>
          Some \<lparr>index = i, whole = take (length (c # cs) - length (fst st)) (c # cs),
                groups = snd st\<rparr>)"

text \<open>
  A regular expression object with the \<^verbatim>\<open>g\<close> flag carries \<^verbatim>\<open>lastIndex\<close>:
  \<^verbatim>\<open>exec\<close> starts there, moves it behind a match and resets it on failure.
\<close>

record regexp =
  source :: rx
  lastIndex :: nat

definition new_RegExp :: "rx \<Rightarrow> regexp" where
  "new_RegExp r = \<lparr>source = r, lastIndex = 0\<rparr>"

definition RegExp_exec :: "regexp \<Rightarrow> string \<Rightarrow> matchres option \<times> regexp" where
  "RegExp_exec re s =
     (if lastIndex re > length s then (None, re\<lparr>lastIndex := 0\<rparr>)
      else case search (source re) (lastIndex re) (drop (lastIndex re) s) of
             None \<Rightarrow> (None, re\<lparr>lastIndex := 0\<rparr>)
           | Some m \<Rightarrow> (Some m, re\<lparr>lastIndex := index m + length (whole m)\<rparr>))"

text \<open>
  \<^verbatim>\<open>s.replace(re, '')\<close> for a \<^verbatim>\<open>g\<close> regular expression: every match, from the left, is
  removed; after an empty match the search moves on by one code unit.
\<close>

function removeMatches :: "rx \<Rightarrow> string \<Rightarrow> string" where
  "removeMatches r [] = []"
| "removeMatches r (c # cs) =
     (case ms r (c # cs, []) of
        [] \<Rightarrow> c # removeMatches r cs
      | st # _ \<Rightarrow>
          if consumed (c # cs) (fst st) then removeMatches r (fst st)
          else c # removeMatches r cs)"
  by pat_completeness auto
termination
proof (relation "measure (\<lambda>(r, s). length s)")
  have shorter: "consumed s s' \<Longrightarrow> length s' < length s" for s s'
    by (induction s) (auto split: if_splits)
  fix r c cs st sts
  assume "consumed (c # cs) (fst st)"
  then have "length (fst st) < length (c # cs)"
    by (rule shorter)
  then show "((r, fst st), r, c # cs) \<in> measure (\<lambda>(r, s). length s)"
    by simp
qed auto

section \<open>Values, errors and the environment\<close>

text \<open>
  A value read from the local dataset, or returned by the remote host: a YAML or JSON
  value, or \<^verbatim>\<open>undefined\<close>. An object is its list of own properties.
\<close>

datatype jsval =
    JUndefined
  | JNull
  | JBool bool
  | JNum int
  | JStr string
  | JArr "jsval list"
  | JObj "(string \<times> jsval) list"

type_synonym obj = "(string \<times> jsval) list"

definition hasOwn :: "obj \<Rightarrow> string \<Rightarrow> bool" where
  "hasOwn v k = (map_of v k \<noteq> None)"

definition prop_of :: "obj \<Rightarrow> string \<Rightarrow> jsval" where
  "prop_of v k = (case map_of v k of None \<Rightarrow> JUndefined | Some x \<Rightarrow> x)"

text \<open>\<^verbatim>\<open>!v\<close> is true on the falsy values.\<close>

fun falsy :: "jsval \<Rightarrow> bool" where
  "falsy JUndefined = True"
| "falsy JNull = True"
| "falsy (JBool b) = (\<not> b)"
| "falsy (JNum n) = (n = 0)"
| "falsy (JStr s) = (s = [])"
| "falsy (JArr xs) = False"
| "falsy (JObj kvs) = False"

text \<open>\<^verbatim>\<open>v != null\<close>, the loose comparison: false on \<^verbatim>\<open>null\<close> and on \<^verbatim>\<open>undefined\<close>.\<close>

fun looseNotNull :: "jsval \<Rightarrow> bool" where
  "looseNotNull JUndefined = False"
| "looseNotNull JNull = False"
| "looseNotNull v = True"

text \<open>
  What the script throws, and what a rejected promise carries. \<open>Error r\<close> is
  \<^verbatim>\<open>new Error(r)\<close>, thrown by the final handler for a rejected row.
\<close>

datatype error =
    TypeError
  | SyntaxError
  | ENOENT
  | YAMLException
  | Rejected string
  | Error error

datatype request =
    FetchFileContents string string string
  | FetchMetadata string string

text \<open>
  The repository metadata of the remote host: \<^verbatim>\<open>result.data\<close> is iterated as a file
  listing, and \<^verbatim>\<open>repoMetadata.data.description\<close> is read from it.
\<close>

record metadata =
  data :: "obj list"
  data_description :: jsval

text \<open>The rows of the stage table, as the table library returns them.\<close>

record ProposalStageTableRecord =
  proposal :: string
  author :: string
  champion :: string
  tests' :: "string option"
  last_presented :: string

record PresenceObj =
  date :: string
  url :: "string option"

record ProposalRecord =
  id' :: string
  authors :: "string list"
  champions :: "string list"
  description :: jsval
  example :: jsval
  has_specification :: bool
  presented :: "PresenceObj list"
  title :: string
  tests :: "string option list option"

text \<open>
  Everything the script imports is a parameter of the model: the remote host
  (\<^verbatim>\<open>GhFileImporter\<close>), the pattern compiler of the regular expression engine
  (\<open>RegExp env src\<close> is the syntax tree of \<^verbatim>\<open>new RegExp(src, 'g')\<close>, or the
  \<^verbatim>\<open>SyntaxError\<close> it throws), \<^verbatim>\<open>sanitize-html\<close> with its list of allowed tags, the
  table library, \<^verbatim>\<open>mdCodeSpans2html\<close>, and the YAML and JSON libraries.  A remote
  request is answered the same way whenever it is made during one run.
\<close>

record env =
  fetchFileContents :: "string \<Rightarrow> string \<Rightarrow> string \<Rightarrow> error + string"
  fetchMetadata :: "string \<Rightarrow> string \<Rightarrow> error + metadata"
  RegExp :: "string \<Rightarrow> error + rx"
  sanitizeHtml :: "string \<Rightarrow> string list \<Rightarrow> string"
  mdTbl2json ::
    "string \<Rightarrow> (string \<Rightarrow> string) \<Rightarrow> (string \<Rightarrow> string) \<Rightarrow> error + ProposalStageTableRecord list"
  mdCodeSpans2html :: "string \<Rightarrow> error + string"
  yaml_load :: "string \<Rightarrow> error + obj list"
  yaml_dump :: "jsval \<Rightarrow> string"
  JSON_stringify :: "ProposalRecord list \<Rightarrow> string"
  JSON_parse :: "string \<Rightarrow> jsval"

text \<open>
  An asynchronous function is modelled by the remote requests it issues, in order, and
  its result: the value it resolves to, or the reason it rejects with.
\<close>

type_synonym 'a task = "request list \<times> (error + 'a)"

definition resolved :: "'a \<Rightarrow> 'a task" where
  "resolved x = ([], Inr x)"

definition lift :: "error + 'a \<Rightarrow> 'a task" where
  "lift r = ([], r)"

definition await :: "'a task \<Rightarrow> ('a \<Rightarrow> 'b task) \<Rightarrow> 'b task" where
  "await m f =
     (case snd m of
        Inl e \<Rightarrow> (fst m, Inl e)
      | Inr a \<Rightarrow> (case f a of (reqs, r) \<Rightarrow> (fst m @ reqs, r)))"

text \<open>
  \<^verbatim>\<open>yaml.load(readFileSync(FILE_PROPOSAL_DATA, 'utf8'))\<close> on the file \<^verbatim>\<open>_data/stage3.yml\<close>,
  whose content is \<open>fs\<close> (\<open>None\<close> when there is no such file).
\<close>

definition readDataset :: "env \<Rightarrow> string option \<Rightarrow> error + obj list" where
  "readDataset env fs = (case fs of None \<Rightarrow> Inl ENOENT | Some content \<Rightarrow> yaml_load env content)"

definition bindE :: "error + 'a \<Rightarrow> ('a \<Rightarrow> error + 'b) \<Rightarrow> error + 'b" where
  "bindE r f = (case r of Inl e \<Rightarrow> Inl e | Inr a \<Rightarrow> f a)"

section \<open>Helpers\<close>

definition isFullRefLink :: "string \<Rightarrow> bool" where
  "isFullRefLink cellContents = startsWith cellContents ''[''"

text \<open>
  \<^verbatim>\<open>array[index]\<close> is \<^verbatim>\<open>undefined\<close> behind the end of the array, and \<^verbatim>\<open>.slice\<close> on it
  throws a \<^verbatim>\<open>TypeError\<close>.
\<close>

definition getFullRefLinkContent :: "string \<Rightarrow> nat \<Rightarrow> error + string" where
  "getFullRefLinkContent fullRefLink i =
     (let array = split fullRefLink ''][''
      in if i < length array
         then Inr (if i = 0 then slice_from1 (array ! i) else slice_to_last (array ! i))
         else Inl TypeError)"

text \<open>
  The pattern source \<^verbatim>\<open>\\[${linkTextLike}.*\\]: (.*)\<close>, and, for a link text without
  characters that are special in a pattern, its syntax tree.
\<close>

definition linkTextLikeSource :: "string \<Rightarrow> string" where
  "linkTextLikeSource linkTextLike =
     [CHR 0x5C] @ ''['' @ linkTextLike @ ''.*'' @ [CHR 0x5C] @ '']: (.*)''"

definition linkTextLikeRx :: "string \<Rightarrow> rx" where
  "linkTextLikeRx linkTextLike =
     Seq (Chr CHR ''['') (Seq (Lit linkTextLike) (Seq (Star True Dot)
       (Seq (Lit '']: '') (Grp 1 (Star True Dot)))))"

text \<open>
  The regular expression is built anew by every call, so \<^verbatim>\<open>exec\<close> starts at index 0.
  \<^verbatim>\<open>exec\<close> returns \<^verbatim>\<open>null\<close> when nothing matches, and \<^verbatim>\<open>null[1]\<close> throws a
  \<^verbatim>\<open>TypeError\<close>. The result is \<^verbatim>\<open>undefined\<close> (\<open>None\<close>) when group 1 took no part in
  the match.
\<close>

definition getUrlFromDoc :: "env \<Rightarrow> string \<Rightarrow> string \<Rightarrow> error + string option" where
  "getUrlFromDoc env proposalsReadmeMd linkTextLike =
     (case RegExp env (linkTextLikeSource linkTextLike) of
        Inl e \<Rightarrow> Inl e
      | Inr r \<Rightarrow>
          (case fst (RegExp_exec (new_RegExp r) proposalsReadmeMd) of
             None \<Rightarrow> Inl TypeError
           | Some m \<Rightarrow> Inr (group m 1)))"

text \<open>\<^verbatim>\<open>/```[a-z]*\n[\s\S]*?\n```\n/g\<close>\<close>

definition codeBlockRegex :: rx where
  "codeBlockRegex =
     Seq (Lit ''```'') (Seq (Star True (Cls [CSet ''abcdefghijklmnopqrstuvwxyz'']))
       (Seq (Chr CHR ''\<newline>'') (Seq (Star False (Cls [CSpace, CNonSpace]))
         (Lit ''\<newline>```\<newline>''))))"

text \<open>\<^verbatim>\<open>/```(.?)*?\n+/gm\<close>\<close>

definition fenceRegex :: rx where
  "fenceRegex =
     Seq (Lit ''```'') (Seq (Star False (Grp 1 (Opt Dot))) (OneOrMore (Chr CHR ''\<newline>'')))"

text \<open>
  \<^verbatim>\<open>toArray\<close> of the result of \<^verbatim>\<open>exec\<close>: no element for \<^verbatim>\<open>null\<close>, and the elements of the
  match array otherwise. \<open>codeBlockRegex\<close> has no capture group, so the match array holds
  the matched text only.
\<close>

definition toArray :: "matchres option \<Rightarrow> string list" where
  "toArray r = (case r of None \<Rightarrow> [] | Some m \<Rightarrow> [whole m])"

text \<open>The scan of the dataset in \<^verbatim>\<open>getCodeSample\<close>: \<^verbatim>\<open>codeSample\<close> after the \<^verbatim>\<open>forEach\<close>.\<close>

definition scanExample :: "obj list \<Rightarrow> string \<Rightarrow> jsval" where
  "scanExample prpslData prpslId =
     foldl (\<lambda>codeSample v.
              if hasOwn v ''id'' \<and> prop_of v ''id'' = JStr prpslId
              then (if hasOwn v ''example'' then prop_of v ''example'' else JUndefined)
              else codeSample)
       JNull prpslData"

definition getCodeSample :: "env \<Rightarrow> string option \<Rightarrow> string \<Rightarrow> jsval task" where
  "getCodeSample env fs prpslId =
     (case readDataset env fs of
        Inl e \<Rightarrow> ([], Inl e)
      | Inr prpslData \<Rightarrow>
          (let codeSample = scanExample prpslData prpslId
           in if looseNotNull codeSample then ([], Inr codeSample)
              else
                (case fetchFileContents env ''tc39'' prpslId ''README.md'' of
                   Inl e \<Rightarrow> ([FetchFileContents ''tc39'' prpslId ''README.md''], Inl e)
                 | Inr contents \<Rightarrow>
                     (let codeBlocks = toArray (fst (RegExp_exec (new_RegExp codeBlockRegex) contents))
                      in ([FetchFileContents ''tc39'' prpslId ''README.md''],
                          Inr (if length codeBlocks > 0
                               then JStr (removeMatches fenceRegex (last codeBlocks))
                               else JUndefined))))))"

definition getPrpslId :: "env \<Rightarrow> string \<Rightarrow> string \<Rightarrow> error + string" where
  "getPrpslId env proposalsReadmeMd linkTextLike =
     (case getUrlFromDoc env proposalsReadmeMd linkTextLike of
        Inl e \<Rightarrow> Inl e
      | Inr None \<Rightarrow> Inl TypeError
      | Inr (Some prpslUrl) \<Rightarrow>
          (let prpslUrl' = (if endsWith prpslUrl ''/'' then slice_to_last prpslUrl else prpslUrl)
           in Inr (toLowerCase (last (split prpslUrl' ''/'')))))"

definition hasSpec :: "env \<Rightarrow> string \<Rightarrow> bool task" where
  "hasSpec env prpslId =
     (case fetchMetadata env ''tc39'' prpslId of
        Inl e \<Rightarrow> ([FetchMetadata ''tc39'' prpslId], Inl e)
      | Inr result \<Rightarrow>
          ([FetchMetadata ''tc39'' prpslId],
           Inr (foldl (\<lambda>isFound v. if prop_of v ''path'' = JStr ''spec.html'' then True else isFound)
                  False (data result))))"

definition json2yaml :: "env \<Rightarrow> string \<Rightarrow> string" where
  "json2yaml env buffer = yaml_dump env (JSON_parse env buffer)"

text \<open>The scan of the dataset in \<^verbatim>\<open>getShortDescription\<close>.\<close>

definition scanDescription :: "obj list \<Rightarrow> string \<Rightarrow> jsval" where
  "scanDescription prpslData prpslId =
     foldl (\<lambda>description v.
              if hasOwn v ''id'' \<and> prop_of v ''id'' = JStr prpslId
              then (if hasOwn v ''description'' then prop_of v ''description'' else JUndefined)
              else description)
       JUndefined prpslData"

text \<open>The line written to the log by \<^verbatim>\<open>log.info\<close> is not part of the model.\<close>

definition getShortDescription :: "env \<Rightarrow> string option \<Rightarrow> string \<Rightarrow> jsval task" where
  "getShortDescription env fs prpslId =
     (case readDataset env fs of
        Inl e \<Rightarrow> ([], Inl e)
      | Inr prpslData \<Rightarrow>
          (let description = scanDescription prpslData prpslId
           in if falsy description
              then
                (case fetchMetadata env ''tc39'' prpslId of
                   Inl e \<Rightarrow> ([FetchMetadata ''tc39'' prpslId], Inl e)
                 | Inr repoMetadata \<Rightarrow>
                     ([FetchMetadata ''tc39'' prpslId], Inr (data_description repoMetadata)))
              else ([], Inr description)))"

definition presenceObjFrom :: "env \<Rightarrow> string \<Rightarrow> ProposalStageTableRecord \<Rightarrow> error + PresenceObj" where
  "presenceObjFrom env proposalsReadmeMd valObj =
     (let lastPresentedVal = sanitizeHtml env (last_presented valObj) []
      in if isFullRefLink lastPresentedVal
         then bindE (getFullRefLinkContent lastPresentedVal 0) (\<lambda>d.
              bindE (getFullRefLinkContent lastPresentedVal 1) (\<lambda>label.
              bindE (getUrlFromDoc env proposalsReadmeMd label) (\<lambda>u.
              Inr \<lparr>date = d, url = u\<rparr>)))
         else Inr \<lparr>date = lastPresentedVal, url = None\<rparr>)"

section \<open>Main\<close>

text \<open>\<^verbatim>\<open>/(### Stage 3\n\n)([.+?\s\S]+)(\n\n### Stage 2)/g\<close>\<close>

definition tblRegex :: rx where
  "tblRegex =
     Seq (Grp 1 (Lit ''### Stage 3\<newline>\<newline>''))
       (Seq (Grp 2 (OneOrMore (Cls [CChar CHR ''.'', CChar CHR ''+'', CChar CHR ''?'', CSpace, CNonSpace])))
         (Grp 3 (Lit ''\<newline>\<newline>### Stage 2'')))"

text \<open>The two callbacks handed to \<^verbatim>\<open>mdTbl2json\<close>: the first for a cell, the second for a header.\<close>

definition cellFormatter :: "env \<Rightarrow> string \<Rightarrow> string" where
  "cellFormatter env val = sanitizeHtml env val [''code'', ''br'']"

definition headerFormatter :: "env \<Rightarrow> string \<Rightarrow> string" where
  "headerFormatter env val = sanitizeHtml env (replaceFirst '' '' ''_'' (toLowerCase val)) []"

definition jsonTblOf :: "env \<Rightarrow> string \<Rightarrow> error + ProposalStageTableRecord list" where
  "jsonTblOf env proposalsReadmeMd =
     (case fst (RegExp_exec (new_RegExp tblRegex) proposalsReadmeMd) of
        None \<Rightarrow> Inl TypeError
      | Some m \<Rightarrow>
          (case group m 2 of
             None \<Rightarrow> Inl TypeError
           | Some markdownTbl \<Rightarrow> mdTbl2json env markdownTbl (cellFormatter env) (headerFormatter env)))"

text \<open>The \<^verbatim>\<open>tests\<close> field of a row's record.\<close>

definition testsOf :: "env \<Rightarrow> string \<Rightarrow> ProposalStageTableRecord \<Rightarrow> error + string option list option" where
  "testsOf env proposalsReadmeMd v =
     (case tests' v of
        None \<Rightarrow> Inr None
      | Some cell \<Rightarrow>
          if isFullRefLink cell
          then bindE (getFullRefLinkContent cell 1) (\<lambda>label.
               bindE (getUrlFromDoc env proposalsReadmeMd label) (\<lambda>u. Inr (Some [u])))
          else Inr None)"

text \<open>
  The asynchronous function mapped over the rows. The fields of the record are evaluated
  in the order of the object literal; the first one that throws or rejects rejects the
  row's promise.
\<close>

definition prpslRcrd :: "env \<Rightarrow> string \<Rightarrow> string option \<Rightarrow> ProposalStageTableRecord \<Rightarrow> ProposalRecord task" where
  "prpslRcrd env proposalsReadmeMd fs v =
     await (lift (bindE (getFullRefLinkContent (proposal v) 1) (getPrpslId env proposalsReadmeMd)))
       (\<lambda>prpslRcrdId.
     await (getShortDescription env fs prpslRcrdId) (\<lambda>descr.
     await (getCodeSample env fs prpslRcrdId) (\<lambda>exmpl.
     await (hasSpec env prpslRcrdId) (\<lambda>spec.
     await (lift (presenceObjFrom env proposalsReadmeMd v)) (\<lambda>presence.
     await (lift (bindE (getFullRefLinkContent (proposal v) 0) (mdCodeSpans2html env))) (\<lambda>ttl.
     await (lift (testsOf env proposalsReadmeMd v)) (\<lambda>tsts.
     resolved
       \<lparr>id' = prpslRcrdId,
        authors = split (author v) ''<br />'',
        champions = split (champion v) ''<br />'',
        description = descr,
        example = exmpl,
        has_specification = spec,
        presented = [presence],
        title = ttl,
        tests = tsts\<rparr>)))))))"

text \<open>
  \<^verbatim>\<open>Promise.allSettled\<close>: the promises settle in some order \<open>order\<close> (the indices of the
  rows, as they complete); each one stores its result at its own index, and the combined
  promise resolves once every index is filled. \<open>None\<close>: it stays pending.
\<close>

definition allSettled :: "nat list \<Rightarrow> 'a list \<Rightarrow> 'a list option" where
  "allSettled order ps =
     (let vals = foldl (\<lambda>vs i. if i < length ps then vs[i := Some (ps ! i)] else vs)
                   (replicate (length ps) None) order
      in if list_all (\<lambda>x. x \<noteq> None) vals then Some (map the vals) else None)"

text \<open>The handler's loop: \<^verbatim>\<open>data.push\<close> for a fulfilled row, \<^verbatim>\<open>throw\<close> for a rejected one.\<close>

fun collect :: "(error + 'a) list \<Rightarrow> 'a list \<Rightarrow> error + 'a list" where
  "collect [] acc = Inr acc"
| "collect (Inr v # rs) acc = collect rs (acc @ [v])"
| "collect (Inl reason # rs) acc = Inl (Error reason)"

text \<open>
  The state after a run: the content of \<^verbatim>\<open>_data/stage3.yml\<close>, the buffers handed to
  \<^verbatim>\<open>fsp.writeFile\<close>, and the error that ended the run, if any. \<^verbatim>\<open>fsp.writeFile\<close> is taken
  to succeed.
\<close>

record run =
  stage3_yml :: "string option"
  writes :: "string list"
  failure :: "error option"

definition handler :: "env \<Rightarrow> string option \<Rightarrow> (error + ProposalRecord) list \<Rightarrow> run" where
  "handler env fs results =
     (case collect results [] of
        Inl e \<Rightarrow> \<lparr>stage3_yml = fs, writes = [], failure = Some e\<rparr>
      | Inr dat \<Rightarrow>
          (let dataBuffer = JSON_stringify env dat;
               resultBuffer = json2yaml env dataBuffer
           in \<lparr>stage3_yml = Some resultBuffer, writes = [resultBuffer], failure = None\<rparr>))"

definition main :: "env \<Rightarrow> nat list \<Rightarrow> string option \<Rightarrow> run" where
  "main env order fs =
     (case fetchFileContents env ''tc39'' ''proposals'' ''README.md'' of
        Inl e \<Rightarrow> \<lparr>stage3_yml = fs, writes = [], failure = Some e\<rparr>
      | Inr proposalsReadmeMd \<Rightarrow>
          (case jsonTblOf env proposalsReadmeMd of
             Inl e \<Rightarrow> \<lparr>stage3_yml = fs, writes = [], failure = Some e\<rparr>
           | Inr jsonTbl \<Rightarrow>
               (let prpslRcrdPromiseArr = map (prpslRcrd env proposalsReadmeMd fs) jsonTbl
                in case allSettled order (map snd prpslRcrdPromiseArr) of
                     None \<Rightarrow> \<lparr>stage3_yml = fs, writes = [], failure = None\<rparr>
                   | Some results \<Rightarrow> handler env fs results)))"

section \<open>Stating the properties\<close>

text \<open>\<open>matchesId prpslId v\<close>: the test of the two scans, \<^verbatim>\<open>hasOwn(value, 'id') && value.id === prpslId\<close>.\<close>

definition matchesId :: "string \<Rightarrow> obj \<Rightarrow> bool" where
  "matchesId prpslId v = (hasOwn v ''id'' \<and> prop_of v ''id'' = JStr prpslId)"

text \<open>
  The lookup of a link label, in words. \<open>lineOf s\<close> is \<open>s\<close> up to its first line terminator.
  \<open>afterLast sep line\<close> is the text behind the last \<open>sep\<close> in \<open>line\<close>. A place of the README
  opens a definition for \<open>label\<close> when \<^verbatim>\<open>[\<close> and the label stand there and the rest of the line
  holds \<^verbatim>\<open>]: \<close>; the label of that line may go on behind \<open>label\<close>, and the URL is the text behind
  the last \<^verbatim>\<open>]: \<close> of the line. \<open>lookupUrl label doc\<close> is the URL of the first such place of \<open>doc\<close>.
  These four functions are not part of the script; the lookup of the script is
  \<open>getUrlFromDoc\<close>, and the two are compared below.
\<close>

definition lineOf :: "string \<Rightarrow> string" where
  "lineOf s = takeWhile (\<lambda>c. \<not> isLineTerminator c) s"

fun afterLast :: "string \<Rightarrow> string \<Rightarrow> string option" where
  "afterLast sep [] = None"
| "afterLast sep (c # cs) =
     (case afterLast sep cs of
        Some r \<Rightarrow> Some r
      | None \<Rightarrow> if take (length sep) (c # cs) = sep then Some (drop (length sep) (c # cs)) else None)"

definition definitionAt :: "string \<Rightarrow> string \<Rightarrow> string option" where
  "definitionAt label s =
     (if take (Suc (length label)) s = CHR ''['' # label
      then afterLast '']: '' (lineOf (drop (Suc (length label)) s))
      else None)"

fun lookupUrl :: "string \<Rightarrow> string \<Rightarrow> string option" where
  "lookupUrl label [] = None"
| "lookupUrl label (c # cs) =
     (case definitionAt label (c # cs) of Some u \<Rightarrow> Some u | None \<Rightarrow> lookupUrl label cs)"

section \<open>Running the matcher\<close>

text \<open>
  The first way of matching that a continuation \<open>k\<close> accepts. The matcher is run in this
  form, which stops at the first success; the equations for it are derived below.
\<close>

fun firstSome :: "('a \<Rightarrow> 'b option) \<Rightarrow> 'a list \<Rightarrow> 'b option" where
  "firstSome k [] = None"
| "firstSome k (x # xs) = (case k x of None \<Rightarrow> firstSome k xs | Some r \<Rightarrow> Some r)"

definition mk :: "rx \<Rightarrow> string \<times> caps \<Rightarrow> (string \<times> caps \<Rightarrow> 'a option) \<Rightarrow> 'a option" where
  "mk r st k = firstSome k (ms r st)"

text \<open>The same for the ways of matching that read at least one code unit.\<close>

definition mkp :: "rx \<Rightarrow> string \<times> caps \<Rightarrow> (string \<times> caps \<Rightarrow> 'a option) \<Rightarrow> 'a option" where
  "mkp r st k = mk r st (\<lambda>st'. if consumed (fst st) (fst st') then k st' else None)"

section \<open>An example environment\<close>

text \<open>
  A small environment on which the functions are evaluated: a README with four link
  reference definitions and the stage table, two table rows, a local dataset, and a
  remote host that knows three repositories. The sanitizer removes every tag whose name
  is not allowed and keeps the text.
\<close>

function stripTags :: "string list \<Rightarrow> string \<Rightarrow> string" where
  "stripTags allowed [] = []"
| "stripTags allowed (c # cs) =
     (if c = CHR ''<'' \<and> CHR ''>'' \<in> set cs
      then (let tag = takeWhile (\<lambda>x. x \<noteq> CHR ''>'') cs;
                name = takeWhile (\<lambda>x. x \<noteq> CHR '' '' \<and> x \<noteq> CHR ''/'')
                         (dropWhile (\<lambda>x. x = CHR ''/'') tag)
            in (if name \<in> set allowed then ''<'' @ tag @ ''>'' else [])
               @ stripTags allowed (drop 1 (dropWhile (\<lambda>x. x \<noteq> CHR ''>'') cs)))
      else c # stripTags allowed cs)"
  by pat_completeness auto
termination
  by (relation "measure (\<lambda>(a, s). length s)")
     (auto intro: le_imp_less_Suc order_trans [OF diff_le_self length_dropWhile_le])

definition exampleReadme :: string where
  "exampleReadme =
     ''[foo]: https://github.com/tc39/Foo/\<newline>'' @
     ''[bar]: https://github.com/tc39/bar\<newline>'' @
     ''[foo-tests]: https://t.io/foo\<newline>'' @
     ''[foo-notes]: https://n.io/foo\<newline>'' @
     ''### Stage 3\<newline>\<newline>|t|\<newline>\<newline>### Stage 2\<newline>''"

definition fooRow :: ProposalStageTableRecord where
  "fooRow =
     \<lparr>proposal = ''[Foo][foo]'', author = ''A<br />B'', champion = ''C'',
      tests' = Some ''[Tests][foo-tests]'',
      last_presented = ''<sub>[December 2019][foo-notes]</sub>''\<rparr>"

definition barRow :: ProposalStageTableRecord where
  "barRow =
     \<lparr>proposal = ''[Bar][bar]'', author = ''D'', champion = ''E<br />F'',
      tests' = Some ''none yet'',
      last_presented = ''<sub>September 2020</sub>''\<rparr>"

definition exampleTable :: "ProposalStageTableRecord list" where
  "exampleTable = [fooRow, barRow]"

definition formatRow :: "(string \<Rightarrow> string) \<Rightarrow> ProposalStageTableRecord \<Rightarrow> ProposalStageTableRecord" where
  "formatRow cell r =
     \<lparr>proposal = cell (proposal r), author = cell (author r), champion = cell (champion r),
      tests' = map_option cell (tests' r), last_presented = cell (last_presented r)\<rparr>"

definition exampleDataset :: "obj list" where
  "exampleDataset =
     [[(''id'', JStr ''bar''), (''description'', JStr ''Old bar''), (''example'', JStr ''x'')],
      [(''id'', JStr ''bar''), (''description'', JStr ''Bar''), (''example'', JStr [])],
      [(''id'', JStr ''baz'')]]"

definition exFetchFileContents :: "string \<Rightarrow> string \<Rightarrow> string \<Rightarrow> error + string" where
  "exFetchFileContents owner repo path =
     (if repo = ''proposals'' then Inr exampleReadme
      else if repo = ''foo''
      then Inr ''# Foo\<newline>```js\<newline>a\<newline>```\<newline>```js\<newline>b\<newline>```\<newline>''
      else if repo = ''baz'' then Inr ''# Baz\<newline>''
      else Inl (Rejected ''Not Found''))"

definition exFetchMetadata :: "string \<Rightarrow> string \<Rightarrow> error + metadata" where
  "exFetchMetadata owner repo =
     (if repo = ''foo''
      then Inr \<lparr>data = [[(''path'', JStr ''README.md'')], [(''path'', JStr ''spec.html'')]],
                data_description = JStr ''Foo for all''\<rparr>
      else if repo = ''bar''
      then Inr \<lparr>data = [[(''path'', JStr ''spec/index.html'')]], data_description = JNull\<rparr>
      else if repo = ''baz''
      then Inr \<lparr>data = [], data_description = JStr ''Baz for all''\<rparr>
      else Inl (Rejected ''Not Found''))"

text \<open>
  The example compiler of regular expressions knows five patterns by their text, as the
  script writes them: \<^verbatim>\<open>\[foo.*\]: (.*)\<close>, and the same for \<^verbatim>\<open>bar\<close>, \<^verbatim>\<open>foo-tests\<close>,
  \<^verbatim>\<open>foo-notes\<close> and \<^verbatim>\<open>some-notes\<close>. Each is parsed into its syntax tree: an opening
  bracket, the word, \<^verbatim>\<open>.*\<close>, the text \<^verbatim>\<open>]: \<close> and the group \<^verbatim>\<open>(.*)\<close>.
\<close>

definition exTree :: "string \<Rightarrow> rx" where
  "exTree word =
     Seq (Chr CHR ''['') (Seq (Lit word) (Seq (Star True Dot)
       (Seq (Lit '']: '') (Grp 1 (Star True Dot)))))"

definition exRegExp :: "string \<Rightarrow> error + rx" where
  "exRegExp src =
     (case map_of
        [([CHR 0x5C] @ ''[foo.*'' @ [CHR 0x5C] @ '']: (.*)'', exTree ''foo''),
         ([CHR 0x5C] @ ''[bar.*'' @ [CHR 0x5C] @ '']: (.*)'', exTree ''bar''),
         ([CHR 0x5C] @ ''[foo-tests.*'' @ [CHR 0x5C] @ '']: (.*)'', exTree ''foo-tests''),
         ([CHR 0x5C] @ ''[foo-notes.*'' @ [CHR 0x5C] @ '']: (.*)'', exTree ''foo-notes''),
         ([CHR 0x5C] @ ''[some-notes.*'' @ [CHR 0x5C] @ '']: (.*)'', exTree ''some-notes'')]
        src of
        None \<Rightarrow> Inl SyntaxError
      | Some r \<Rightarrow> Inr r)"

definition exSanitizeHtml :: "string \<Rightarrow> string list \<Rightarrow> string" where
  "exSanitizeHtml s allowed = stripTags allowed s"

definition exMdTbl2json ::
  "string \<Rightarrow> (string \<Rightarrow> string) \<Rightarrow> (string \<Rightarrow> string) \<Rightarrow> error + ProposalStageTableRecord list" where
  "exMdTbl2json tbl cell hdr =
     (if tbl = ''|t|'' then Inr (map (formatRow cell) exampleTable) else Inl (Rejected ''no table''))"

definition exMdCodeSpans2html :: "string \<Rightarrow> error + string" where
  "exMdCodeSpans2html s = Inr s"

text \<open>A second dataset: the last record for \<^verbatim>\<open>baz\<close> has neither an example nor a description.\<close>

definition overwrittenDataset :: "obj list" where
  "overwrittenDataset =
     [[(''id'', JStr ''baz''), (''description'', JStr ''Old baz''), (''example'', JStr ''y'')],
      [(''id'', JStr ''baz'')]]"

definition exYamlLoad :: "string \<Rightarrow> error + obj list" where
  "exYamlLoad s =
     (if s = ''old'' then Inr exampleDataset
      else if s = ''overwritten'' then Inr overwrittenDataset
      else Inl YAMLException)"

text \<open>The example serializers write the identifiers of the records, one per line.\<close>

definition exStringify :: "ProposalRecord list \<Rightarrow> string" where
  "exStringify rs = concat (map (\<lambda>r. id' r @ ''\<newline>'') rs)"

definition exParse :: "string \<Rightarrow> jsval" where
  "exParse s = JStr s"

definition exYamlDump :: "jsval \<Rightarrow> string" where
  "exYamlDump v = (case v of JStr s \<Rightarrow> s | _ \<Rightarrow> [])"

definition exampleEnv :: env where
  "exampleEnv =
     \<lparr>fetchFileContents = exFetchFileContents,
      fetchMetadata = exFetchMetadata,
      RegExp = exRegExp,
      sanitizeHtml = exSanitizeHtml,
      mdTbl2json = exMdTbl2json,
      mdCodeSpans2html = exMdCodeSpans2html,
      yaml_load = exYamlLoad,
      yaml_dump = exYamlDump,
      JSON_stringify = exStringify,
      JSON_parse = exParse\<rparr>"

text \<open>The same environment with a host whose metadata request for \<^verbatim>\<open>bar\<close> is rejected.\<close>

definition exFailingMetadata :: "string \<Rightarrow> string \<Rightarrow> error + metadata" where
  "exFailingMetadata owner repo =
     (if repo = ''bar'' then Inl (Rejected ''Not Found'') else exFetchMetadata owner repo)"

definition failingEnv :: env where
  "failingEnv = exampleEnv\<lparr>fetchMetadata := exFailingMetadata\<rparr>"

text \<open>The rows as the table library returns them, and the records they resolve to.\<close>

definition fooCells :: ProposalStageTableRecord where
  "fooCells =
     \<lparr>proposal = ''[Foo][foo]'', author = ''A<br />B'', champion = ''C'',
      tests' = Some ''[Tests][foo-tests]'', last_presented = ''[December 2019][foo-notes]''\<rparr>"

definition barCells :: ProposalStageTableRecord where
  "barCells =
     \<lparr>proposal = ''[Bar][bar]'', author = ''D'', champion = ''E<br />F'',
      tests' = Some ''none yet'', last_presented = ''September 2020''\<rparr>"

definition fooRecord :: ProposalRecord where
  "fooRecord =
     \<lparr>id' = ''foo'', authors = [''A'', ''B''], champions = [''C''],
      description = JStr ''Foo for all'', example = JStr ''a\<newline>'',
      has_specification = True,
      presented = [\<lparr>date = ''December 2019'', url = Some ''https://n.io/foo''\<rparr>],
      title = ''Foo'', tests = Some [Some ''https://t.io/foo'']\<rparr>"

definition barRecord :: ProposalRecord where
  "barRecord =
     \<lparr>id' = ''bar'', authors = [''D''], champions = [''E'', ''F''],
      description = JStr ''Bar'', example = JStr [],
      has_specification = False,
      presented = [\<lparr>date = ''September 2020'', url = None\<rparr>],
      title = ''Bar'', tests = None\<rparr>"

text \<open>A document with two link reference definitions whose labels share a prefix.\<close>

definition twoDefs :: string where
  "twoDefs = ''[a]: x\<newline>[ab]: y\<newline>''"

section \<open>Equations for running the matcher\<close>

lemma firstSome_append:
  "firstSome k (xs @ ys) = (case firstSome k xs of None \<Rightarrow> firstSome k ys | Some r \<Rightarrow> Some r)"
  by (induction xs) (auto split: option.splits)

lemma firstSome_concat_map:
  "firstSome k (concat (map f xs)) = firstSome (\<lambda>x. firstSome k (f x)) xs"
  by (induction xs) (auto simp: firstSome_append split: option.splits)

lemma firstSome_map: "firstSome k (map f xs) = firstSome (\<lambda>x. k (f x)) xs"
  by (induction xs) (auto split: option.splits)

lemma firstSome_filter: "firstSome k (filter P xs) = firstSome (\<lambda>x. if P x then k x else None) xs"
  by (induction xs) (auto split: option.splits)

lemma firstSome_Some: "firstSome Some xs = (case xs of [] \<Rightarrow> None | x # _ \<Rightarrow> Some x)"
  by (cases xs) auto

lemma mk_Chr [code]:
  "mk (Chr c) st k =
     (case fst st of [] \<Rightarrow> None | x # xs \<Rightarrow> if x = c then k (xs, snd st) else None)"
  by (simp add: mk_def split: list.splits option.splits)

lemma mk_Lit [code]:
  "mk (Lit w) st k =
     (if take (length w) (fst st) = w then k (drop (length w) (fst st), snd st) else None)"
  by (simp add: mk_def split: option.splits)

lemma mk_Dot [code]:
  "mk Dot st k =
     (case fst st of [] \<Rightarrow> None
      | x # xs \<Rightarrow> if isLineTerminator x then None else k (xs, snd st))"
  by (simp add: mk_def split: list.splits option.splits)

lemma mk_Cls [code]:
  "mk (Cls cs) st k =
     (case fst st of [] \<Rightarrow> None
      | x # xs \<Rightarrow> if list_ex (inCls x) cs then k (xs, snd st) else None)"
  by (simp add: mk_def split: list.splits option.splits)

lemma mk_Seq [code]:
  "mk (Seq a b) st k = mk a st (\<lambda>st'. mk b st' k)"
  by (simp add: mk_def firstSome_concat_map)

lemma mk_Grp [code]:
  "mk (Grp n a) st k = mk a st (\<lambda>st'. k (fst st', (n, fst st, fst st') # snd st'))"
  by (simp add: mk_def firstSome_map)

lemma mk_Star [code]:
  "mk (Star greedy a) st k =
     (if greedy
      then (case mkp a st (\<lambda>st'. case st' of (s', g') \<Rightarrow> mk (Star greedy a) st' k) of
              None \<Rightarrow> k st
            | Some r \<Rightarrow> Some r)
      else (case k st of
              None \<Rightarrow> mkp a st (\<lambda>st'. case st' of (s', g') \<Rightarrow> mk (Star greedy a) st' k)
            | Some r \<Rightarrow> Some r))"
proof -
  define more where
    "more = concat (map (ms (Star greedy a)) (filter (\<lambda>st'. consumed (fst st) (fst st')) (ms a st)))"
  have more: "firstSome k more =
      mkp a st (\<lambda>st'. case st' of (s', g') \<Rightarrow> mk (Star greedy a) st' k)"
    unfolding more_def mkp_def mk_def
    by (simp only: firstSome_concat_map firstSome_filter case_prod_beta)
  have "mk (Star greedy a) st k = firstSome k (if greedy then more @ [st] else st # more)"
    unfolding mk_def more_def by (simp only: ms.simps Let_def)
  also have "\<dots> = (if greedy
      then (case firstSome k more of None \<Rightarrow> k st | Some r \<Rightarrow> Some r)
      else (case k st of None \<Rightarrow> firstSome k more | Some r \<Rightarrow> Some r))"
    by (simp add: firstSome_append split: option.splits)
  finally show ?thesis
    by (simp only: more)
qed

lemma mk_Opt [code]:
  "mk (Opt a) st k = (case mkp a st k of None \<Rightarrow> k st | Some r \<Rightarrow> Some r)"
  by (simp add: mkp_def mk_def firstSome_append firstSome_filter split: option.splits)

lemma mkp_code [code]:
  "mkp (Chr c) st k = mk (Chr c) st k"
  "mkp Dot st k = mk Dot st k"
  "mkp (Cls cs) st k = mk (Cls cs) st k"
  "mkp (Lit w) st k = mk (Lit w) st (\<lambda>st'. if consumed (fst st) (fst st') then k st' else None)"
  "mkp (Seq a b) st k = mk (Seq a b) st (\<lambda>st'. if consumed (fst st) (fst st') then k st' else None)"
  "mkp (Grp n a) st k = mk (Grp n a) st (\<lambda>st'. if consumed (fst st) (fst st') then k st' else None)"
  "mkp (Star greedy a) st k =
     mk (Star greedy a) st (\<lambda>st'. if consumed (fst st) (fst st') then k st' else None)"
  "mkp (Opt a) st k = mk (Opt a) st (\<lambda>st'. if consumed (fst st) (fst st') then k st' else None)"
  by (simp_all add: mkp_def mk_Chr mk_Dot mk_Cls split: list.splits)

lemma search_code [code]:
  "search r i [] =
     (case mk r ([], []) Some of
        None \<Rightarrow> None
      | Some st \<Rightarrow> Some \<lparr>index = i, whole = [], groups = snd st\<rparr>)"
  "search r i (c # cs) =
     (case mk r (c # cs, []) Some of
        None \<Rightarrow> search r (Suc i) cs
      | Some st \<Rightarrow>
          Some \<lparr>index = i, whole = take (length (c # cs) - length (fst st)) (c # cs),
                groups = snd st\<rparr>)"
  by (simp_all add: mk_def firstSome_Some split: list.splits)

lemma removeMatches_code [code]:
  "removeMatches r [] = []"
  "removeMatches r (c # cs) =
     (case mk r (c # cs, []) Some of
        None \<Rightarrow> c # removeMatches r cs
      | Some st \<Rightarrow>
          if consumed (c # cs) (fst st) then removeMatches r (fst st)
          else c # removeMatches r cs)"
  by (simp_all add: mk_def firstSome_Some split: list.splits)

section \<open>The scans of the local dataset\<close>

lemma prop_of_absent: "\<not> hasOwn v k \<Longrightarrow> prop_of v k = JUndefined"
  by (simp add: hasOwn_def prop_of_def)

lemma foldl_last_match:
  "foldl (\<lambda>acc v. if P v then f v else acc) a xs =
     (if filter P xs = [] then a else f (last (filter P xs)))"
  by (induction xs rule: rev_induct) auto

lemma scanExample_last:
  "scanExample prpslData prpslId =
     (if filter (matchesId prpslId) prpslData = [] then JNull
      else prop_of (last (filter (matchesId prpslId) prpslData)) ''example'')"
proof -
  have "scanExample prpslData prpslId =
      foldl (\<lambda>acc v. if matchesId prpslId v then prop_of v ''example'' else acc) JNull prpslData"
    unfolding scanExample_def matchesId_def
    by (rule arg_cong [where f = "\<lambda>f. foldl f JNull prpslData"])
       (auto simp: fun_eq_iff prop_of_absent)
  then show ?thesis
    by (simp add: foldl_last_match)
qed

lemma scanDescription_last:
  "scanDescription prpslData prpslId =
     (if filter (matchesId prpslId) prpslData = [] then JUndefined
      else prop_of (last (filter (matchesId prpslId) prpslData)) ''description'')"
proof -
  have "scanDescription prpslData prpslId =
      foldl (\<lambda>acc v. if matchesId prpslId v then prop_of v ''description'' else acc)
        JUndefined prpslData"
    unfolding scanDescription_def matchesId_def
    by (rule arg_cong [where f = "\<lambda>f. foldl f JUndefined prpslData"])
       (auto simp: fun_eq_iff prop_of_absent)
  then show ?thesis
    by (simp add: foldl_last_match)
qed

lemma example_matches_bar:
  "filter (matchesId ''bar'') exampleDataset =
     [[(''id'', JStr ''bar''), (''description'', JStr ''Old bar''), (''example'', JStr ''x'')],
      [(''id'', JStr ''bar''), (''description'', JStr ''Bar''), (''example'', JStr [])]]"
  by code_simp

lemma overwritten_matches_baz:
  "filter (matchesId ''baz'') overwrittenDataset =
     [[(''id'', JStr ''baz''), (''description'', JStr ''Old baz''), (''example'', JStr ''y'')],
      [(''id'', JStr ''baz'')]]"
  by code_simp

lemma overwritten_dataset: "readDataset exampleEnv (Some ''overwritten'') = Inr overwrittenDataset"
  by (simp add: readDataset_def exampleEnv_def exYamlLoad_def)

text \<open>
  Claim C10. When the local dataset holds records with the identifier, \<^verbatim>\<open>getCodeSample\<close> and
  \<^verbatim>\<open>getShortDescription\<close> go on from the \<^verbatim>\<open>example\<close> and the \<^verbatim>\<open>description\<close> of the last
  matching record in the order of the dataset (\<^verbatim>\<open>undefined\<close> when that record has no such
  property), whatever the earlier matching records hold: \<^verbatim>\<open>getCodeSample\<close> returns that
  example when it is neither null nor undefined and reads the remote README otherwise;
  \<^verbatim>\<open>getShortDescription\<close> returns that description when it is truthy and asks for the
  remote metadata otherwise.
\<close>

theorem resolvers_read_last_match:
  assumes "readDataset env fs = Inr prpslData"
    and "filter (matchesId prpslId) prpslData \<noteq> []"
  shows "getCodeSample env fs prpslId =
          (let codeSample = prop_of (last (filter (matchesId prpslId) prpslData)) ''example''
           in if looseNotNull codeSample then ([], Inr codeSample)
              else
                (case fetchFileContents env ''tc39'' prpslId ''README.md'' of
                   Inl e \<Rightarrow> ([FetchFileContents ''tc39'' prpslId ''README.md''], Inl e)
                 | Inr contents \<Rightarrow>
                     (let codeBlocks = toArray (fst (RegExp_exec (new_RegExp codeBlockRegex) contents))
                      in ([FetchFileContents ''tc39'' prpslId ''README.md''],
                          Inr (if length codeBlocks > 0
                               then JStr (removeMatches fenceRegex (last codeBlocks))
                               else JUndefined)))))
       \<and> getShortDescription env fs prpslId =
          (let description = prop_of (last (filter (matchesId prpslId) prpslData)) ''description''
           in if falsy description
              then
                (case fetchMetadata env ''tc39'' prpslId of
                   Inl e \<Rightarrow> ([FetchMetadata ''tc39'' prpslId], Inl e)
                 | Inr repoMetadata \<Rightarrow>
                     ([FetchMetadata ''tc39'' prpslId], Inr (data_description repoMetadata)))
              else ([], Inr description))"
proof -
  have "scanExample prpslData prpslId =
      prop_of (last (filter (matchesId prpslId) prpslData)) ''example''"
    using assms(2) by (simp add: scanExample_last)
  moreover have "scanDescription prpslData prpslId =
      prop_of (last (filter (matchesId prpslId) prpslData)) ''description''"
    using assms(2) by (simp add: scanDescription_last)
  ultimately show ?thesis
    unfolding getCodeSample_def getShortDescription_def assms(1) by simp
qed

theorem resolvers_read_last_match_witness:
  "length (filter (matchesId ''bar'') exampleDataset) = 2
   \<and> prop_of (hd (filter (matchesId ''bar'') exampleDataset)) ''example'' = JStr ''x''
   \<and> prop_of (hd (filter (matchesId ''bar'') exampleDataset)) ''description'' = JStr ''Old bar''
   \<and> getCodeSample exampleEnv (Some ''old'') ''bar'' = ([], Inr (JStr []))
   \<and> getShortDescription exampleEnv (Some ''old'') ''bar'' = ([], Inr (JStr ''Bar''))
   \<and> length (filter (matchesId ''baz'') overwrittenDataset) = 2
   \<and> prop_of (hd (filter (matchesId ''baz'') overwrittenDataset)) ''example'' = JStr ''y''
   \<and> prop_of (hd (filter (matchesId ''baz'') overwrittenDataset)) ''description'' = JStr ''Old baz''
   \<and> getCodeSample exampleEnv (Some ''overwritten'') ''baz'' =
       ([FetchFileContents ''tc39'' ''baz'' ''README.md''], Inr JUndefined)
   \<and> getShortDescription exampleEnv (Some ''overwritten'') ''baz'' =
       ([FetchMetadata ''tc39'' ''baz''], Inr (JStr ''Baz for all''))"
proof -
  have ds: "readDataset exampleEnv (Some ''old'') = Inr exampleDataset"
    by (simp add: readDataset_def exampleEnv_def exYamlLoad_def)
  have bar: "filter (matchesId ''bar'') exampleDataset \<noteq> []"
    by (simp add: example_matches_bar)
  have baz: "filter (matchesId ''baz'') overwrittenDataset \<noteq> []"
    by (simp add: overwritten_matches_baz)
  have readme: "fetchFileContents exampleEnv ''tc39'' ''baz'' ''README.md'' = Inr ''# Baz\<newline>''"
    by code_simp
  have blocks: "toArray (fst (RegExp_exec (new_RegExp codeBlockRegex) ''# Baz\<newline>'')) = []"
    by code_simp
  have remote: "fetchMetadata exampleEnv ''tc39'' ''baz'' =
      Inr \<lparr>data = [], data_description = JStr ''Baz for all''\<rparr>"
    by code_simp
  show ?thesis
    using resolvers_read_last_match [OF ds bar] resolvers_read_last_match [OF overwritten_dataset baz]
    by (simp add: example_matches_bar overwritten_matches_baz prop_of_def readme blocks remote)
qed

section \<open>Specification presence\<close>

lemma foldl_isFound:
  "foldl (\<lambda>isFound v. if P v then True else isFound) b xs = (b \<or> (\<exists>v\<in>set xs. P v))"
  by (induction xs arbitrary: b) auto

text \<open>
  Claim C5. When the metadata request is answered, \<^verbatim>\<open>hasSpec\<close> resolves to true if and only
  if the listing holds an entry whose path is exactly \<^verbatim>\<open>spec.html\<close>. In the example the
  listing of \<^verbatim>\<open>foo\<close> holds \<^verbatim>\<open>spec.html\<close>, the listing of \<^verbatim>\<open>bar\<close> holds only
  \<^verbatim>\<open>spec/index.html\<close>, and the listing of \<^verbatim>\<open>baz\<close> is empty.
\<close>

theorem hasSpec_iff_spec_html:
  "fetchMetadata env ''tc39'' prpslId = Inr result \<Longrightarrow>
   hasSpec env prpslId =
     ([FetchMetadata ''tc39'' prpslId],
      Inr (\<exists>v\<in>set (data result). prop_of v ''path'' = JStr ''spec.html''))"
  by (simp add: hasSpec_def foldl_isFound)

theorem hasSpec_iff_spec_html_witness:
  "snd (hasSpec exampleEnv ''foo'') = Inr True
   \<and> snd (hasSpec exampleEnv ''bar'') = Inr False
   \<and> snd (hasSpec exampleEnv ''baz'') = Inr False"
proof -
  have foo: "fetchMetadata exampleEnv ''tc39'' ''foo'' =
      Inr \<lparr>data = [[(''path'', JStr ''README.md'')], [(''path'', JStr ''spec.html'')]],
           data_description = JStr ''Foo for all''\<rparr>"
    by code_simp
  have bar: "fetchMetadata exampleEnv ''tc39'' ''bar'' =
      Inr \<lparr>data = [[(''path'', JStr ''spec/index.html'')]], data_description = JNull\<rparr>"
    by code_simp
  have baz: "fetchMetadata exampleEnv ''tc39'' ''baz'' =
      Inr \<lparr>data = [], data_description = JStr ''Baz for all''\<rparr>"
    by code_simp
  show ?thesis
    using hasSpec_iff_spec_html [OF foo] hasSpec_iff_spec_html [OF bar]
      hasSpec_iff_spec_html [OF baz]
    by (simp add: prop_of_def)
qed

section \<open>Local values and remote requests\<close>

lemma example_no_foo: "filter (matchesId ''foo'') exampleDataset = []"
  by code_simp

lemma example_matches_baz: "filter (matchesId ''baz'') exampleDataset = [[(''id'', JStr ''baz'')]]"
  by code_simp

lemma example_dataset: "readDataset exampleEnv (Some ''old'') = Inr exampleDataset"
  by (simp add: readDataset_def exampleEnv_def exYamlLoad_def)

text \<open>
  Claim C1, as stated, fails: the example dataset holds a record for \<^verbatim>\<open>baz\<close> that has no
  description, and \<^verbatim>\<open>getShortDescription\<close> does not return that absent value; it issues a
  metadata request and returns the description of the remote repository.
\<close>

theorem stored_description_absent_is_fetched:
  "filter (matchesId ''baz'') exampleDataset = [[(''id'', JStr ''baz'')]]
   \<and> readDataset exampleEnv (Some ''old'') = Inr exampleDataset
   \<and> getShortDescription exampleEnv (Some ''old'') ''baz'' =
       ([FetchMetadata ''tc39'' ''baz''], Inr (JStr ''Baz for all''))"
  by (simp add: example_matches_baz example_dataset) code_simp

text \<open>
  Claim C1, amended. Let the local dataset hold a record for the identifier, and take the
  last such record. When its example is present and not null (the empty string
  included), \<^verbatim>\<open>getCodeSample\<close> returns exactly that example and issues no remote request.
  When its description is truthy (a string that is not empty), \<^verbatim>\<open>getShortDescription\<close>
  returns exactly that description and issues no remote request. When its description
  is absent, null or empty, \<^verbatim>\<open>getShortDescription\<close> issues one metadata request and returns
  the description of the remote repository, or rejects as the request does.
\<close>

theorem local_value_wins_when_present:
  assumes "readDataset env fs = Inr prpslData"
    and "filter (matchesId prpslId) prpslData \<noteq> []"
  shows "(let v = last (filter (matchesId prpslId) prpslData) in
           (looseNotNull (prop_of v ''example'') \<longrightarrow>
              getCodeSample env fs prpslId = ([], Inr (prop_of v ''example'')))
         \<and> (\<not> falsy (prop_of v ''description'') \<longrightarrow>
              getShortDescription env fs prpslId = ([], Inr (prop_of v ''description'')))
         \<and> (falsy (prop_of v ''description'') \<longrightarrow>
              getShortDescription env fs prpslId =
                ([FetchMetadata ''tc39'' prpslId],
                 map_sum id data_description (fetchMetadata env ''tc39'' prpslId))))"
  using assms
  by (auto simp: getCodeSample_def getShortDescription_def scanExample_last scanDescription_last
        Let_def split: sum.splits)

theorem local_value_wins_when_present_witness:
  "getCodeSample exampleEnv (Some ''old'') ''bar'' = ([], Inr (JStr []))
   \<and> getShortDescription exampleEnv (Some ''old'') ''bar'' = ([], Inr (JStr ''Bar''))
   \<and> getShortDescription exampleEnv (Some ''old'') ''baz'' =
       ([FetchMetadata ''tc39'' ''baz''], Inr (JStr ''Baz for all''))"
proof -
  have bar: "filter (matchesId ''bar'') exampleDataset \<noteq> []"
    by (simp add: example_matches_bar)
  have baz: "filter (matchesId ''baz'') exampleDataset \<noteq> []"
    by (simp add: example_matches_baz)
  have remote: "fetchMetadata exampleEnv ''tc39'' ''baz'' =
      Inr \<lparr>data = [], data_description = JStr ''Baz for all''\<rparr>"
    by code_simp
  show ?thesis
    using local_value_wins_when_present [OF example_dataset bar]
      local_value_wins_when_present [OF example_dataset baz]
    by (simp add: example_matches_bar example_matches_baz prop_of_def remote)
qed

section \<open>The code sample of a new proposal\<close>

text \<open>
  Claim C2. The local dataset has no record for \<^verbatim>\<open>foo\<close>, and the README of \<^verbatim>\<open>foo\<close> holds
  two fenced code blocks, \<^verbatim>\<open>a\<close> and then \<^verbatim>\<open>b\<close>. \<^verbatim>\<open>getCodeSample\<close> fetches the README and
  returns the content of the first block: \<^verbatim>\<open>exec\<close> gives one match only, so the array
  handed to \<^verbatim>\<open>pop\<close> has one element.
\<close>

theorem getCodeSample_takes_first_block:
  "filter (matchesId ''foo'') exampleDataset = []
   \<and> fetchFileContents exampleEnv ''tc39'' ''foo'' ''README.md'' =
       Inr ''# Foo\<newline>```js\<newline>a\<newline>```\<newline>```js\<newline>b\<newline>```\<newline>''
   \<and> getCodeSample exampleEnv (Some ''old'') ''foo'' =
       ([FetchFileContents ''tc39'' ''foo'' ''README.md''], Inr (JStr ''a\<newline>''))"
  by (simp add: example_no_foo) code_simp

section \<open>The keys of the table\<close>

lemma header_lowered:
  "replaceFirst '' '' ''_'' (toLowerCase ''Expected Publication Year'') = ''expected_publication year''"
  by code_simp

text \<open>
  Claim C4. The callback for a header lower-cases it and replaces its first space only:
  the header \<^verbatim>\<open>Expected Publication Year\<close> is handed to the sanitizer as
  \<^verbatim>\<open>expected_publication year\<close>, and with a sanitizer that keeps plain text this is the key.
\<close>

theorem headerFormatter_first_space_only:
  "headerFormatter env ''Expected Publication Year'' = sanitizeHtml env ''expected_publication year'' []
   \<and> headerFormatter exampleEnv ''Expected Publication Year'' = ''expected_publication year''"
proof -
  have "stripTags [] ''expected_publication year'' = ''expected_publication year''"
    by code_simp
  then show ?thesis
    by (simp add: headerFormatter_def header_lowered exampleEnv_def exSanitizeHtml_def)
qed

section \<open>The lookup of a link label\<close>

text \<open>
  How the pattern \<^verbatim>\<open>\[label.*\]: (.*)\<close> matches: \<^verbatim>\<open>.*\<close> stays inside the line, the greedy
  \<^verbatim>\<open>.*\<close> in front of \<^verbatim>\<open>]: \<close> gives the last \<^verbatim>\<open>]: \<close> of the line, and the group takes the rest of
  the line. The search takes the leftmost place where the pattern matches.
\<close>

lemma lineOf_simps:
  "lineOf [] = []"
  "lineOf (x # xs) = (if isLineTerminator x then [] else x # lineOf xs)"
  by (simp_all add: lineOf_def)

lemma lineOf_append:
  "\<forall>c\<in>set w. \<not> isLineTerminator c \<Longrightarrow> lineOf (w @ t) = w @ lineOf t"
  by (simp add: lineOf_def takeWhile_append2)

lemma take_lineOf:
  assumes "\<forall>c\<in>set w. \<not> isLineTerminator c"
  shows "take (length w) (lineOf s) = w \<longleftrightarrow> take (length w) s = w"
proof
  assume a: "take (length w) (lineOf s) = w"
  then have "length (take (length w) (lineOf s)) = length w"
    by simp
  then have len: "length w \<le> length (lineOf s)"
    by simp
  have "take (length w) (lineOf s @ dropWhile (\<lambda>c. \<not> isLineTerminator c) s) = take (length w) (lineOf s)"
    using len by simp
  then have "take (length w) s = take (length w) (lineOf s)"
    by (simp add: lineOf_def)
  with a show "take (length w) s = w"
    by simp
next
  assume "take (length w) s = w"
  then have "s = w @ drop (length w) s"
    by (metis append_take_drop_id)
  then have "lineOf s = w @ lineOf (drop (length w) s)"
    using lineOf_append [OF assms] by metis
  then show "take (length w) (lineOf s) = w"
    by simp
qed

lemma drop_lineOf:
  assumes "\<forall>c\<in>set w. \<not> isLineTerminator c" and "take (length w) s = w"
  shows "drop (length w) (lineOf s) = lineOf (drop (length w) s)"
proof -
  from assms(2) have "s = w @ drop (length w) s"
    by (metis append_take_drop_id)
  then have "lineOf s = w @ lineOf (drop (length w) s)"
    using lineOf_append [OF assms(1)] by metis
  then show ?thesis
    by simp
qed

lemma ms_Star_Dot:
  "ms (Star True Dot) ([], g) = [([], g)]"
  "ms (Star True Dot) (x # xs, g) =
     (if isLineTerminator x then [] else ms (Star True Dot) (xs, g)) @ [(x # xs, g)]"
proof -
  have "ms (Star True Dot) ([], g) =
      (let more = concat (map (ms (Star True Dot))
         (filter (\<lambda>st'. consumed (fst ([], g)) (fst st')) (ms Dot ([], g))))
       in if True then more @ [([], g)] else ([], g) # more)"
    by (rule ms.simps)
  then show "ms (Star True Dot) ([], g) = [([], g)]"
    by (simp only: ms.simps(3) Let_def fst_conv list.case filter.simps list.map concat.simps
        if_True append_Nil)
  have "ms (Star True Dot) (x # xs, g) =
      (let more = concat (map (ms (Star True Dot))
         (filter (\<lambda>st'. consumed (fst (x # xs, g)) (fst st')) (ms Dot (x # xs, g))))
       in if True then more @ [(x # xs, g)] else (x # xs, g) # more)"
    by (rule ms.simps)
  also have "ms Dot (x # xs, g) = (if isLineTerminator x then [] else [(xs, g)])"
    by (simp only: ms.simps(3) fst_conv snd_conv list.case)
  finally show "ms (Star True Dot) (x # xs, g) =
     (if isLineTerminator x then [] else ms (Star True Dot) (xs, g)) @ [(x # xs, g)]"
    by (cases "isLineTerminator x")
      (simp_all only: Let_def fst_conv filter.simps list.map concat.simps consumed.simps
        if_True if_False append_Nil append_Nil2 refl)
qed

lemma ms_Star_Dot_hd:
  "ms (Star True Dot) (s, g) \<noteq> []
   \<and> hd (ms (Star True Dot) (s, g)) = (drop (length (lineOf s)) s, g)"
proof (induction s)
  case Nil
  show ?case
    by (simp add: ms_Star_Dot lineOf_simps del: ms.simps)
next
  case (Cons x xs)
  then show ?case
    by (cases "isLineTerminator x") (simp_all add: ms_Star_Dot lineOf_simps del: ms.simps)
qed

lemma ms_capture_line:
  "\<exists>rest. ms (Grp n (Star True Dot)) (s, g) =
     (drop (length (lineOf s)) s, (n, s, drop (length (lineOf s)) s) # g) # rest"
proof -
  have ne: "ms (Star True Dot) (s, g) \<noteq> []"
    and h: "hd (ms (Star True Dot) (s, g)) = (drop (length (lineOf s)) s, g)"
    using ms_Star_Dot_hd [of s g] by blast+
  from ne obtain st rest where eq: "ms (Star True Dot) (s, g) = st # rest"
    by (cases "ms (Star True Dot) (s, g)") blast+
  with h have st: "st = (drop (length (lineOf s)) s, g)"
    by (simp del: ms.simps)
  have "ms (Grp n (Star True Dot)) (s, g) =
      map (\<lambda>st'. (fst st', (n, fst (s, g), fst st') # snd st')) (ms (Star True Dot) (s, g))"
    by (rule ms.simps)
  then show ?thesis
    unfolding eq st by (simp del: ms.simps)
qed

lemma ms_Lit_then:
  "ms (Seq (Lit w) b) (s, g) = (if take (length w) s = w then ms b (drop (length w) s, g) else [])"
  by (simp only: ms.simps(5) ms.simps(2) fst_conv snd_conv list.map concat.simps append_Nil2
      split: if_split) simp

lemma ms_Star_Dot_then:
  "ms (Seq (Star True Dot) b) ([], g) = ms b ([], g)"
  "ms (Seq (Star True Dot) b) (x # xs, g) =
     (if isLineTerminator x then [] else ms (Seq (Star True Dot) b) (xs, g)) @ ms b (x # xs, g)"
proof -
  have t: "ms (Seq (Star True Dot) b) (s, g) = concat (map (ms b) (ms (Star True Dot) (s, g)))"
    for s
    by (rule ms.simps)
  show "ms (Seq (Star True Dot) b) ([], g) = ms b ([], g)"
    unfolding t ms_Star_Dot by (simp del: ms.simps)
  show "ms (Seq (Star True Dot) b) (x # xs, g) =
     (if isLineTerminator x then [] else ms (Seq (Star True Dot) b) (xs, g)) @ ms b (x # xs, g)"
    unfolding t ms_Star_Dot by (simp del: ms.simps)
qed

lemma separator_in_line: "\<forall>c\<in>set '']: ''. \<not> isLineTerminator c"
  by (simp add: isLineTerminator_def)

lemma ms_definition_tail:
  "case afterLast '']: '' (lineOf s) of
     None \<Rightarrow> ms (Seq (Star True Dot) (Seq (Lit '']: '') (Grp n (Star True Dot)))) (s, g) = []
   | Some u \<Rightarrow>
       \<exists>t rest. ms (Seq (Star True Dot) (Seq (Lit '']: '') (Grp n (Star True Dot)))) (s, g) =
           (drop (length u) t, (n, t, drop (length u) t) # g) # rest
         \<and> lineOf t = u"
proof (induction s)
  case Nil
  show ?case
    by (simp add: lineOf_simps ms_Star_Dot_then ms_Lit_then del: ms.simps)
next
  case (Cons x xs)
  let ?B = "Seq (Lit '']: '') (Grp n (Star True Dot))"
  let ?T = "Seq (Star True Dot) ?B"
  have len: "length '']: '' = 3"
    by simp
  have url: "ms ?B (s, g) = (if take 3 s = '']: '' then ms (Grp n (Star True Dot)) (drop 3 s, g) else [])"
    for s
    using ms_Lit_then [of "'']: ''" "Grp n (Star True Dot)" s g] unfolding len .
  show ?case
  proof (cases "isLineTerminator x")
    case True
    have ne: "take 3 (x # xs) \<noteq> '']: ''"
    proof
      assume "take 3 (x # xs) = '']: ''"
      then have "x = CHR '']''"
        by (simp add: numeral_3_eq_3)
      with True show False
        by (simp add: isLineTerminator_def)
    qed
    have "ms ?T (x # xs, g) = []"
      unfolding ms_Star_Dot_then url using True ne by (simp only: if_True if_False append_Nil simp_thms)
    moreover have "lineOf (x # xs) = []"
      using True by (simp add: lineOf_simps)
    ultimately show ?thesis
      by (simp only: afterLast.simps option.case)
  next
    case False
    then have line: "lineOf (x # xs) = x # lineOf xs"
      by (simp add: lineOf_simps)
    have step: "ms ?T (x # xs, g) = ms ?T (xs, g) @ ms ?B (x # xs, g)"
      using False by (simp add: ms_Star_Dot_then del: ms.simps)
    show ?thesis
    proof (cases "afterLast '']: '' (lineOf xs)")
      case (Some u)
      with Cons.IH obtain t rest where
        "ms ?T (xs, g) = (drop (length u) t, (n, t, drop (length u) t) # g) # rest" "lineOf t = u"
        by (simp only: option.case) blast
      then have "ms ?T (x # xs, g) =
          (drop (length u) t, (n, t, drop (length u) t) # g) # (rest @ ms ?B (x # xs, g))
          \<and> lineOf t = u"
        unfolding step by (simp only: append_Cons simp_thms)
      moreover have "afterLast '']: '' (x # lineOf xs) = Some u"
        using Some by (simp only: afterLast.simps option.case)
      ultimately show ?thesis
        unfolding line by (simp only: option.case) blast
    next
      case None
      with Cons.IH have nil: "ms ?T (xs, g) = []"
        by (simp only: option.case)
      have tk: "take 3 (x # lineOf xs) = '']: '' \<longleftrightarrow> take 3 (x # xs) = '']: ''"
        using take_lineOf [OF separator_in_line, of "x # xs"] unfolding line len .
      show ?thesis
      proof (cases "take 3 (x # xs) = '']: ''")
        case True
        have dr: "drop 3 (x # lineOf xs) = lineOf (drop 3 (x # xs))"
          using drop_lineOf [OF separator_in_line, of "x # xs"] True unfolding line len .
        obtain rest where cap:
          "ms (Grp n (Star True Dot)) (drop 3 (x # xs), g) =
             (drop (length (lineOf (drop 3 (x # xs)))) (drop 3 (x # xs)),
              (n, drop 3 (x # xs), drop (length (lineOf (drop 3 (x # xs)))) (drop 3 (x # xs))) # g)
             # rest"
          using ms_capture_line [where n = n and s = "drop 3 (x # xs)" and g = g] by blast
        have al: "afterLast '']: '' (x # lineOf xs) = Some (lineOf (drop 3 (x # xs)))"
        proof -
          from tk True have "take 3 (x # lineOf xs) = '']: ''"
            by blast
          with None dr show ?thesis
            by (simp only: afterLast.simps option.case len if_True simp_thms)
        qed
        have "ms ?T (x # xs, g) =
             (drop (length (lineOf (drop 3 (x # xs)))) (drop 3 (x # xs)),
              (n, drop 3 (x # xs), drop (length (lineOf (drop 3 (x # xs)))) (drop 3 (x # xs))) # g)
             # rest"
          unfolding step nil url using True cap by (simp only: if_True append_Nil simp_thms)
        then show ?thesis
          unfolding line al by (simp only: option.case) blast
      next
        case False
        have al: "afterLast '']: '' (x # lineOf xs) = None"
        proof -
          from tk False have "take 3 (x # lineOf xs) \<noteq> '']: ''"
            by blast
          with None show ?thesis
            by (simp only: afterLast.simps option.case len if_False simp_thms)
        qed
        have "ms ?T (x # xs, g) = []"
          unfolding step nil url using False by (simp only: if_False append_Nil simp_thms)
        then show ?thesis
          unfolding line al by (simp only: option.case)
      qed
    qed
  qed
qed


lemma ms_Chr_then:
  "ms (Seq (Chr c) b) ([], g) = []"
  "ms (Seq (Chr c) b) (x # xs, g) = (if x = c then ms b (xs, g) else [])"
  by (simp_all only: ms.simps(5) ms.simps(1) fst_conv snd_conv list.case list.map concat.simps
      append_Nil2 split: if_split) simp

lemma definitionAt_simps:
  "definitionAt l [] = None"
  "definitionAt l (x # xs) =
     (if x = CHR ''['' \<and> take (length l) xs = l
      then afterLast '']: '' (lineOf (drop (length l) xs)) else None)"
  by (simp_all add: definitionAt_def)

lemma ms_linkTextLikeRx:
  "case definitionAt l s of
     None \<Rightarrow> ms (linkTextLikeRx l) (s, g) = []
   | Some u \<Rightarrow>
       \<exists>t rest. ms (linkTextLikeRx l) (s, g) =
           (drop (length u) t, (1, t, drop (length u) t) # g) # rest
         \<and> lineOf t = u"
proof (cases s)
  case Nil
  show ?thesis
    unfolding Nil linkTextLikeRx_def ms_Chr_then definitionAt_simps by (simp only: option.case)
next
  case (Cons x xs)
  let ?T = "Seq (Star True Dot) (Seq (Lit '']: '') (Grp 1 (Star True Dot)))"
  show ?thesis
  proof (cases "x = CHR ''['' \<and> take (length l) xs = l")
    case True
    then have "ms (linkTextLikeRx l) (s, g) = ms ?T (drop (length l) xs, g)"
      unfolding linkTextLikeRx_def Cons ms_Chr_then ms_Lit_then by (simp only: if_True simp_thms)
    moreover have "definitionAt l s = afterLast '']: '' (lineOf (drop (length l) xs))"
      unfolding Cons definitionAt_simps using True by (simp only: if_True simp_thms)
    ultimately show ?thesis
      using ms_definition_tail [where s = "drop (length l) xs" and n = 1 and g = g] by (simp only:)
  next
    case False
    then have "ms (linkTextLikeRx l) (s, g) = []"
      unfolding linkTextLikeRx_def Cons ms_Chr_then ms_Lit_then
      by (cases "x = CHR ''[''") (simp_all only: if_True if_False simp_thms)
    moreover have "definitionAt l s = None"
      unfolding Cons definitionAt_simps using False by (simp only: if_False)
    ultimately show ?thesis
      by (simp only: option.case)
  qed
qed

lemma group_captured:
  assumes "lineOf t = u"
  shows "group \<lparr>index = i, whole = w, groups = [(1, t, drop (length u) t)]\<rparr> 1 = Some u"
proof -
  have "takeWhile (\<lambda>c. \<not> isLineTerminator c) t
      = take (length (takeWhile (\<lambda>c. \<not> isLineTerminator c) t)) t"
    by (rule takeWhile_eq_take)
  then have "take (length u) t = u"
    using assms unfolding lineOf_def by simp
  moreover have "length u \<le> length t"
    using assms unfolding lineOf_def by (metis length_takeWhile_le)
  ultimately show ?thesis
    by (simp add: group_def)
qed

lemma search_linkTextLikeRx:
  "case lookupUrl l s of
     None \<Rightarrow> search (linkTextLikeRx l) i s = None
   | Some u \<Rightarrow> \<exists>m. search (linkTextLikeRx l) i s = Some m \<and> group m 1 = Some u"
proof (induction s arbitrary: i)
  case Nil
  have "ms (linkTextLikeRx l) ([], []) = []"
    using ms_linkTextLikeRx [where l = l and s = "[]" and g = "[]"] by (simp only: definitionAt_simps option.case)
  then show ?case
    by (simp only: search.simps lookupUrl.simps list.case option.case)
next
  case (Cons c cs)
  show ?case
  proof (cases "definitionAt l (c # cs)")
    case None
    then have "ms (linkTextLikeRx l) (c # cs, []) = []"
      using ms_linkTextLikeRx [where l = l and s = "c # cs" and g = "[]"] by (simp only: option.case)
    then have "search (linkTextLikeRx l) i (c # cs) = search (linkTextLikeRx l) (Suc i) cs"
      by (simp only: search.simps list.case)
    moreover have "lookupUrl l (c # cs) = lookupUrl l cs"
      using None by (simp only: lookupUrl.simps option.case)
    ultimately show ?thesis
      using Cons.IH [where i = "Suc i"] by (simp only:)
  next
    case (Some u)
    then obtain t rest where m: "ms (linkTextLikeRx l) (c # cs, []) =
        (drop (length u) t, [(1, t, drop (length u) t)]) # rest" and t: "lineOf t = u"
      using ms_linkTextLikeRx [where l = l and s = "c # cs" and g = "[]"] by (simp only: option.case) blast
    have "search (linkTextLikeRx l) i (c # cs) =
        Some \<lparr>index = i,
          whole = take (length (c # cs) - length (drop (length u) t)) (c # cs),
          groups = [(1, t, drop (length u) t)]\<rparr>"
      unfolding search.simps m by (simp only: list.case fst_conv snd_conv)
    moreover have "lookupUrl l (c # cs) = Some u"
      using Some by (simp only: lookupUrl.simps option.case)
    ultimately show ?thesis
      using group_captured [OF t] by (simp only: option.case) blast
  qed
qed

lemma getUrlFromDoc_lookupUrl:
  assumes "RegExp env (linkTextLikeSource l) = Inr (linkTextLikeRx l)"
  shows "getUrlFromDoc env doc l =
    (case lookupUrl l doc of None \<Rightarrow> Inl TypeError | Some u \<Rightarrow> Inr (Some u))"
proof -
  have exec: "fst (RegExp_exec (new_RegExp r) doc) = search r 0 doc" for r
    by (simp add: RegExp_exec_def new_RegExp_def split: option.split)
  show ?thesis
    using search_linkTextLikeRx [where l = l and s = doc and i = 0]
    unfolding getUrlFromDoc_def assms exec
    by (cases "lookupUrl l doc") auto
qed

text \<open>
  When the definition of the label is the first place of the README that opens a
  definition for it, the lookup gives the URL of this definition.
\<close>

lemma lookupUrl_skip:
  "\<forall>k<length pre. definitionAt l (drop k (pre @ s)) = None \<Longrightarrow>
   lookupUrl l (pre @ s) = lookupUrl l s"
proof (induction pre)
  case Nil
  show ?case
    by simp
next
  case (Cons p ps)
  from Cons.prems have "definitionAt l (drop 0 ((p # ps) @ s)) = None"
    by blast
  then have here: "definitionAt l (p # ps @ s) = None"
    by simp
  have "\<forall>k<length ps. definitionAt l (drop k (ps @ s)) = None"
  proof (intro allI impI)
    fix k
    assume "k < length ps"
    then have "Suc k < length (p # ps)"
      by simp
    with Cons.prems have "definitionAt l (drop (Suc k) ((p # ps) @ s)) = None"
      by blast
    then show "definitionAt l (drop k (ps @ s)) = None"
      by simp
  qed
  with Cons.IH have "lookupUrl l (ps @ s) = lookupUrl l s"
    by blast
  with here show ?case
    by simp
qed

lemma afterLast_separator:
  "afterLast '']: '' u = None \<Longrightarrow> afterLast '']: '' ('']: '' @ u) = Some u"
  by simp

lemma definitionAt_own_definition:
  assumes "lineOf u = u" and "lineOf post = []" and "afterLast '']: '' u = None"
  shows "definitionAt l (''['' @ l @ '']: '' @ u @ post) = Some u"
proof -
  from assms(1) have "\<forall>c\<in>set u. \<not> isLineTerminator c"
    unfolding lineOf_def by (simp add: takeWhile_eq_all_conv)
  then have "\<forall>c\<in>set ('']: '' @ u). \<not> isLineTerminator c"
    using separator_in_line by auto
  then have "lineOf (('']: '' @ u) @ post) = ('']: '' @ u) @ lineOf post"
    by (rule lineOf_append)
  then have "lineOf ('']: '' @ u @ post) = '']: '' @ u"
    using assms(2) by simp
  then show ?thesis
    using afterLast_separator [OF assms(3)] by (simp add: definitionAt_def)
qed

lemma lookupUrl_own_definition:
  assumes "\<forall>k<length pre. definitionAt l (drop k (pre @ ''['' @ l @ '']: '' @ u @ post)) = None"
    and "lineOf u = u" and "lineOf post = []" and "afterLast '']: '' u = None"
  shows "lookupUrl l (pre @ ''['' @ l @ '']: '' @ u @ post) = Some u"
proof -
  have "lookupUrl l (pre @ ''['' @ l @ '']: '' @ u @ post) = lookupUrl l (''['' @ l @ '']: '' @ u @ post)"
    using assms(1) by (rule lookupUrl_skip)
  also have "\<dots> = lookupUrl l (CHR ''['' # l @ '']: '' @ u @ post)"
    by simp
  also have "\<dots> = Some u"
    using definitionAt_own_definition [OF assms(2-4), of l] by simp
  finally show ?thesis .
qed

section \<open>Full reference links\<close>










section \<open>The record of a row\<close>

lemma example_table: "jsonTblOf exampleEnv exampleReadme = Inr [fooCells, barCells]"
  by code_simp

lemma failing_table: "jsonTblOf failingEnv exampleReadme = Inr [fooCells, barCells]"
  by code_simp

lemma example_foo_record:
  "prpslRcrd exampleEnv exampleReadme (Some ''old'') fooCells =
     ([FetchMetadata ''tc39'' ''foo'', FetchFileContents ''tc39'' ''foo'' ''README.md'',
       FetchMetadata ''tc39'' ''foo''], Inr fooRecord)"
  by code_simp

lemma example_bar_record:
  "prpslRcrd exampleEnv exampleReadme (Some ''old'') barCells =
     ([FetchMetadata ''tc39'' ''bar''], Inr barRecord)"
  by code_simp

lemma failing_bar_record:
  "prpslRcrd failingEnv exampleReadme (Some ''old'') barCells =
     ([FetchMetadata ''tc39'' ''bar''], Inl (Rejected ''Not Found''))"
  by code_simp








section \<open>Identifier resolution\<close>

lemma example_foo_compiled:
  "RegExp exampleEnv (linkTextLikeSource ''foo'') = Inr (linkTextLikeRx ''foo'')"
  by code_simp

lemma example_foo_lookup: "lookupUrl ''foo'' exampleReadme = Some ''https://github.com/tc39/Foo/''"
  by code_simp

text \<open>
  Claim C9. Resolving the same link text twice against the same README gives the same
  identifier both times (and fails both times if it fails): the regular expression object
  is built by each call, so no \<^verbatim>\<open>lastIndex\<close> is carried from one call to the next. When the
  pattern of the link text is compiled to the tree of \<open>linkTextLikeRx\<close>, the identifier is a
  function of the link text and the README alone: the URL of the first place of the README
  that opens a definition for the link text, without one trailing \<^verbatim>\<open>/\<close>, its last segment,
  in lower case.
\<close>

theorem getPrpslId_twice_same:
  "bindE (getPrpslId env proposalsReadmeMd linkTextLike)
     (\<lambda>a. bindE (getPrpslId env proposalsReadmeMd linkTextLike) (\<lambda>b. Inr (a, b)))
   = bindE (getPrpslId env proposalsReadmeMd linkTextLike) (\<lambda>a. Inr (a, a))
   \<and> (RegExp env (linkTextLikeSource linkTextLike) = Inr (linkTextLikeRx linkTextLike) \<longrightarrow>
        getPrpslId env proposalsReadmeMd linkTextLike =
          (case lookupUrl linkTextLike proposalsReadmeMd of
             None \<Rightarrow> Inl TypeError
           | Some prpslUrl \<Rightarrow>
               Inr (toLowerCase (last (split
                 (if endsWith prpslUrl ''/'' then slice_to_last prpslUrl else prpslUrl) ''/'')))))"
proof (intro conjI impI)
  show "bindE (getPrpslId env proposalsReadmeMd linkTextLike)
     (\<lambda>a. bindE (getPrpslId env proposalsReadmeMd linkTextLike) (\<lambda>b. Inr (a, b)))
   = bindE (getPrpslId env proposalsReadmeMd linkTextLike) (\<lambda>a. Inr (a, a))"
    by (cases "getPrpslId env proposalsReadmeMd linkTextLike") (simp_all add: bindE_def)
next
  assume compiled: "RegExp env (linkTextLikeSource linkTextLike) = Inr (linkTextLikeRx linkTextLike)"
  show "getPrpslId env proposalsReadmeMd linkTextLike =
      (case lookupUrl linkTextLike proposalsReadmeMd of
         None \<Rightarrow> Inl TypeError
       | Some prpslUrl \<Rightarrow>
           Inr (toLowerCase (last (split
             (if endsWith prpslUrl ''/'' then slice_to_last prpslUrl else prpslUrl) ''/''))))"
    unfolding getPrpslId_def getUrlFromDoc_lookupUrl [OF compiled]
    by (cases "lookupUrl linkTextLike proposalsReadmeMd") (simp_all add: Let_def)
qed

theorem getPrpslId_twice_same_witness:
  "RegExp exampleEnv (linkTextLikeSource ''foo'') = Inr (linkTextLikeRx ''foo'')
   \<and> lookupUrl ''foo'' exampleReadme = Some ''https://github.com/tc39/Foo/''
   \<and> getPrpslId exampleEnv exampleReadme ''foo'' = Inr ''foo''
   \<and> bindE (getPrpslId exampleEnv exampleReadme ''foo'')
        (\<lambda>a. bindE (getPrpslId exampleEnv exampleReadme ''foo'') (\<lambda>b. Inr (a, b)))
       = Inr (''foo'', ''foo'')"
proof -
  have "toLowerCase (last (split (if endsWith ''https://github.com/tc39/Foo/'' ''/''
          then slice_to_last ''https://github.com/tc39/Foo/''
          else ''https://github.com/tc39/Foo/'') ''/'')) = ''foo''"
    by code_simp
  then show ?thesis
    using getPrpslId_twice_same [of exampleEnv exampleReadme "''foo''"]
    by (simp add: example_foo_compiled example_foo_lookup bindE_def)
qed

lemma example_foo_id: "getPrpslId exampleEnv exampleReadme ''foo'' = Inr ''foo''"
  by code_simp

text \<open>
  A regular expression object shared by two calls would not behave so: the second
  \<^verbatim>\<open>exec\<close> goes on behind the first match.
\<close>

lemma shared_regexp_moves_on:
  "map_option (\<lambda>m. group m 1) (fst (RegExp_exec (new_RegExp (linkTextLikeRx ''a'')) twoDefs))
     = Some (Some ''x'')
   \<and> map_option (\<lambda>m. group m 1)
       (fst (RegExp_exec (snd (RegExp_exec (new_RegExp (linkTextLikeRx ''a'')) twoDefs)) twoDefs))
     = Some (Some ''y'')"
  by code_simp

section \<open>The run\<close>

text \<open>
  \<^verbatim>\<open>Promise.allSettled\<close> fills the result of a promise in at the index of the promise. When
  it resolves, the results are those of the promises, in the order of the promises; and
  it resolves when every promise settles, in whatever order.
\<close>

lemma allSettled_step_partial:
  assumes "length vs = length ps"
    and "\<And>i. i < length ps \<Longrightarrow> vs ! i = None \<or> vs ! i = Some (ps ! i)"
  shows "length (foldl (\<lambda>vs i. if i < length ps then vs[i := Some (ps ! i)] else vs) vs order)
           = length ps
       \<and> (\<forall>i<length ps.
            foldl (\<lambda>vs i. if i < length ps then vs[i := Some (ps ! i)] else vs) vs order ! i = None
          \<or> foldl (\<lambda>vs i. if i < length ps then vs[i := Some (ps ! i)] else vs) vs order ! i
              = Some (ps ! i))"
  using assms
proof (induction order arbitrary: vs)
  case Nil
  then show ?case by simp
next
  case (Cons j order)
  show ?case
    unfolding foldl_Cons
  proof (rule Cons.IH)
    show "length (if j < length ps then vs[j := Some (ps ! j)] else vs) = length ps"
      using Cons.prems(1) by simp
    show "(if j < length ps then vs[j := Some (ps ! j)] else vs) ! i = None
        \<or> (if j < length ps then vs[j := Some (ps ! j)] else vs) ! i = Some (ps ! i)"
      if "i < length ps" for i
      using Cons.prems(2) [OF that] Cons.prems(1) that by (auto simp: nth_list_update)
  qed
qed

lemma allSettled_Some:
  assumes "allSettled order ps = Some rs"
  shows "rs = ps"
proof -
  define vals where
    "vals = foldl (\<lambda>vs i. if i < length ps then vs[i := Some (ps ! i)] else vs)
              (replicate (length ps) None) order"
  have inv: "length vals = length ps
      \<and> (\<forall>i<length ps. vals ! i = None \<or> vals ! i = Some (ps ! i))"
    unfolding vals_def by (rule allSettled_step_partial) simp_all
  then have len: "length vals = length ps"
    and part: "\<And>i. i < length ps \<Longrightarrow> vals ! i = None \<or> vals ! i = Some (ps ! i)"
    by blast+
  have "allSettled order ps =
      (if list_all (\<lambda>x. x \<noteq> None) vals then Some (map the vals) else None)"
    by (simp only: allSettled_def Let_def vals_def)
  with assms have sel: "(if list_all (\<lambda>x. x \<noteq> None) vals then Some (map the vals) else None) = Some rs"
    by simp
  then have all: "list_all (\<lambda>x. x \<noteq> None) vals"
    by (cases "list_all (\<lambda>x. x \<noteq> None) vals") simp_all
  with sel have rs: "rs = map the vals"
    by simp
  have nth: "vals ! i = Some (ps ! i)" if "i < length ps" for i
  proof -
    from all len that have "vals ! i \<noteq> None"
      by (simp add: list_all_length)
    with part [OF that] show ?thesis
      by blast
  qed
  show ?thesis
    unfolding rs
  proof (rule nth_equalityI)
    show "length (map the vals) = length ps"
      using len by simp
    show "map the vals ! i = ps ! i" if "i < length (map the vals)" for i
      using that len nth [of i] by simp
  qed
qed

lemma allSettled_step_complete:
  assumes "length vs = length ps"
    and "\<And>i. i < length ps \<Longrightarrow> vs ! i = (if i \<in> S then Some (ps ! i) else None)"
  shows "length (foldl (\<lambda>vs i. if i < length ps then vs[i := Some (ps ! i)] else vs) vs order)
           = length ps
       \<and> (\<forall>i<length ps.
            foldl (\<lambda>vs i. if i < length ps then vs[i := Some (ps ! i)] else vs) vs order ! i
              = (if i \<in> S \<union> set order then Some (ps ! i) else None))"
  using assms
proof (induction order arbitrary: vs S)
  case Nil
  then show ?case by simp
next
  case (Cons j order)
  have "length (foldl (\<lambda>vs i. if i < length ps then vs[i := Some (ps ! i)] else vs)
            (if j < length ps then vs[j := Some (ps ! j)] else vs) order) = length ps
      \<and> (\<forall>i<length ps.
            foldl (\<lambda>vs i. if i < length ps then vs[i := Some (ps ! i)] else vs)
              (if j < length ps then vs[j := Some (ps ! j)] else vs) order ! i
              = (if i \<in> insert j S \<union> set order then Some (ps ! i) else None))"
  proof (rule Cons.IH)
    show "length (if j < length ps then vs[j := Some (ps ! j)] else vs) = length ps"
      using Cons.prems(1) by simp
    show "(if j < length ps then vs[j := Some (ps ! j)] else vs) ! i
        = (if i \<in> insert j S then Some (ps ! i) else None)"
      if "i < length ps" for i
      using Cons.prems(2) [OF that] Cons.prems(1) that by (auto simp: nth_list_update)
  qed
  then show ?case by simp
qed

lemma allSettled_complete:
  assumes "{..<length ps} \<subseteq> set order"
  shows "allSettled order ps = Some ps"
proof -
  define vals where
    "vals = foldl (\<lambda>vs i. if i < length ps then vs[i := Some (ps ! i)] else vs)
              (replicate (length ps) None) order"
  have "length vals = length ps
      \<and> (\<forall>i<length ps. vals ! i = (if i \<in> {} \<union> set order then Some (ps ! i) else None))"
    unfolding vals_def by (rule allSettled_step_complete) simp_all
  with assms have len: "length vals = length ps"
    and nth: "\<And>i. i < length ps \<Longrightarrow> vals ! i = Some (ps ! i)"
    by auto
  have "list_all (\<lambda>x. x \<noteq> None) vals"
    using len nth by (simp add: list_all_length)
  moreover have "map the vals = ps"
    using len nth by (intro nth_equalityI) auto
  ultimately show ?thesis
    by (simp add: allSettled_def Let_def flip: vals_def)
qed

text \<open>The loop of the handler ends without \<^verbatim>\<open>throw\<close> exactly on a list of fulfilled results.\<close>

lemma collect_map_Inr: "collect (map Inr ds) acc = Inr (acc @ ds)"
  by (induction ds arbitrary: acc) auto

lemma collect_Inr:
  "collect rs acc = Inr ds \<Longrightarrow> \<exists>ds'. rs = map Inr ds' \<and> ds = acc @ ds'"
proof (induction rs acc rule: collect.induct)
  case (1 acc)
  then show ?case by simp
next
  case (2 v rs acc)
  then obtain ds' where "rs = map Inr ds'" and "ds = (acc @ [v]) @ ds'"
    by auto
  then have "Inr v # rs = map Inr (v # ds') \<and> ds = acc @ (v # ds')"
    by simp
  then show ?case
    by (rule exI [of _ "v # ds'"])
next
  case (3 reason rs acc)
  then show ?case by simp
qed

lemma handler_rejected:
  assumes "Inl e \<in> set results"
  shows "writes (handler env fs results) = [] \<and> stage3_yml (handler env fs results) = fs"
proof (cases "collect results []")
  case (Inl e')
  then show ?thesis
    by (simp add: handler_def)
next
  case (Inr ds)
  then obtain ds' where "results = map Inr ds'"
    using collect_Inr by blast
  with assms show ?thesis
    by auto
qed

lemma handler_fulfilled:
  "handler env fs (map Inr dat) =
     \<lparr>stage3_yml = Some (json2yaml env (JSON_stringify env dat)),
      writes = [json2yaml env (JSON_stringify env dat)], failure = None\<rparr>"
  by (simp add: handler_def collect_map_Inr Let_def)

lemma handler_writes:
  assumes "writes (handler env fs results) \<noteq> []"
  shows "\<exists>dat. results = map Inr dat"
proof (cases "collect results []")
  case (Inl e')
  with assms show ?thesis
    by (simp add: handler_def)
next
  case (Inr ds)
  then show ?thesis
    using collect_Inr by blast
qed

lemma main_unfold:
  assumes "fetchFileContents env ''tc39'' ''proposals'' ''README.md'' = Inr doc"
    and "jsonTblOf env doc = Inr jsonTbl"
  shows "main env order fs =
     (case allSettled order (map (\<lambda>row. snd (prpslRcrd env doc fs row)) jsonTbl) of
        None \<Rightarrow> \<lparr>stage3_yml = fs, writes = [], failure = None\<rparr>
      | Some results \<Rightarrow> handler env fs results)"
  using assms by (simp add: main_def Let_def comp_def)

lemma main_writes_nothing:
  assumes "fetchFileContents env ''tc39'' ''proposals'' ''README.md'' = Inr doc"
    and "jsonTblOf env doc = Inr jsonTbl"
    and "row \<in> set jsonTbl" and "snd (prpslRcrd env doc fs row) = Inl e"
  shows "writes (main env order fs) = [] \<and> stage3_yml (main env order fs) = fs"
proof (cases "allSettled order (map (\<lambda>row. snd (prpslRcrd env doc fs row)) jsonTbl)")
  case None
  then show ?thesis
    by (simp add: main_unfold [OF assms(1,2)])
next
  case (Some results)
  then have "results = map (\<lambda>row. snd (prpslRcrd env doc fs row)) jsonTbl"
    by (rule allSettled_Some)
  with assms(3,4) have "Inl e \<in> set results"
    by force
  then show ?thesis
    by (simp add: main_unfold [OF assms(1,2)] Some handler_rejected)
qed

lemma main_writes_rows:
  assumes "fetchFileContents env ''tc39'' ''proposals'' ''README.md'' = Inr doc"
    and "jsonTblOf env doc = Inr jsonTbl"
    and "{..<length jsonTbl} \<subseteq> set order"
    and "map (\<lambda>row. snd (prpslRcrd env doc fs row)) jsonTbl = map Inr dat"
  shows "main env order fs =
     \<lparr>stage3_yml = Some (json2yaml env (JSON_stringify env dat)),
      writes = [json2yaml env (JSON_stringify env dat)], failure = None\<rparr>"
proof -
  have "allSettled order (map (\<lambda>row. snd (prpslRcrd env doc fs row)) jsonTbl) =
      Some (map (\<lambda>row. snd (prpslRcrd env doc fs row)) jsonTbl)"
    using assms(3) by (intro allSettled_complete) simp
  then show ?thesis
    by (simp add: main_unfold [OF assms(1,2)] assms(4) handler_fulfilled)
qed

lemma main_written:
  assumes "writes (main env order fs) \<noteq> []"
  shows "\<exists>doc jsonTbl dat.
      fetchFileContents env ''tc39'' ''proposals'' ''README.md'' = Inr doc
      \<and> jsonTblOf env doc = Inr jsonTbl
      \<and> map (\<lambda>row. snd (prpslRcrd env doc fs row)) jsonTbl = map Inr dat
      \<and> main env order fs =
          \<lparr>stage3_yml = Some (json2yaml env (JSON_stringify env dat)),
           writes = [json2yaml env (JSON_stringify env dat)], failure = None\<rparr>"
proof -
  from assms obtain doc where doc: "fetchFileContents env ''tc39'' ''proposals'' ''README.md'' = Inr doc"
    by (cases "fetchFileContents env ''tc39'' ''proposals'' ''README.md''") (auto simp: main_def)
  with assms obtain jsonTbl where tbl: "jsonTblOf env doc = Inr jsonTbl"
    by (cases "jsonTblOf env doc") (auto simp: main_def)
  from assms obtain results where
    settled: "allSettled order (map (\<lambda>row. snd (prpslRcrd env doc fs row)) jsonTbl) = Some results"
    by (cases "allSettled order (map (\<lambda>row. snd (prpslRcrd env doc fs row)) jsonTbl)")
       (auto simp: main_unfold [OF doc tbl])
  then have results: "results = map (\<lambda>row. snd (prpslRcrd env doc fs row)) jsonTbl"
    by (rule allSettled_Some)
  from assms have "writes (handler env fs results) \<noteq> []"
    by (simp add: main_unfold [OF doc tbl] settled)
  then obtain dat where dat: "results = map Inr dat"
    using handler_writes by blast
  have "main env order fs =
      \<lparr>stage3_yml = Some (json2yaml env (JSON_stringify env dat)),
       writes = [json2yaml env (JSON_stringify env dat)], failure = None\<rparr>"
    by (simp add: main_unfold [OF doc tbl] settled dat handler_fulfilled)
  with doc tbl results dat show ?thesis
    by (intro exI [of _ doc] exI [of _ jsonTbl] exI [of _ dat]) simp
qed

lemma example_readme_fetched:
  "fetchFileContents exampleEnv ''tc39'' ''proposals'' ''README.md'' = Inr exampleReadme"
  by code_simp

lemma failing_readme_fetched:
  "fetchFileContents failingEnv ''tc39'' ''proposals'' ''README.md'' = Inr exampleReadme"
  by code_simp

lemma example_output:
  "json2yaml exampleEnv (JSON_stringify exampleEnv [fooRecord, barRecord]) = ''foo\<newline>bar\<newline>''"
  by code_simp

lemma example_run:
  "main exampleEnv [1, 0] (Some ''old'') =
     \<lparr>stage3_yml = Some ''foo\<newline>bar\<newline>'', writes = [''foo\<newline>bar\<newline>''], failure = None\<rparr>"
proof -
  have cover: "{..<length [fooCells, barCells]} \<subseteq> set [1, 0 :: nat]"
    by auto
  have rows: "map (\<lambda>row. snd (prpslRcrd exampleEnv exampleReadme (Some ''old'') row))
      [fooCells, barCells] = map Inr [fooRecord, barRecord]"
    by (simp add: example_foo_record example_bar_record)
  show ?thesis
    using main_writes_rows [OF example_readme_fetched example_table cover rows]
    by (simp only: example_output)
qed

text \<open>
  Claim C3. Let the README be fetched and the table be read. When the record of one row
  rejects, the run hands nothing to \<^verbatim>\<open>fsp.writeFile\<close> and \<^verbatim>\<open>_data/stage3.yml\<close> is as it was
  before the run, whatever the order in which the rows settle. And when the run hands
  something to \<^verbatim>\<open>fsp.writeFile\<close>, the record of every row has resolved.
\<close>

theorem no_write_when_a_row_fails:
  assumes "fetchFileContents env ''tc39'' ''proposals'' ''README.md'' = Inr proposalsReadmeMd"
    and "jsonTblOf env proposalsReadmeMd = Inr jsonTbl"
  shows "(v \<in> set jsonTbl \<and> snd (prpslRcrd env proposalsReadmeMd fs v) = Inl e \<longrightarrow>
            writes (main env order fs) = [] \<and> stage3_yml (main env order fs) = fs)
       \<and> (writes (main env order fs) \<noteq> [] \<longrightarrow>
            (\<forall>v\<in>set jsonTbl. \<exists>r. snd (prpslRcrd env proposalsReadmeMd fs v) = Inr r))"
proof (intro conjI impI)
  assume "v \<in> set jsonTbl \<and> snd (prpslRcrd env proposalsReadmeMd fs v) = Inl e"
  then have unchanged: "writes (main env order fs) = [] \<and> stage3_yml (main env order fs) = fs"
    using main_writes_nothing [OF assms] by blast
  show "writes (main env order fs) = []"
    by (rule conjunct1 [OF unchanged])
  show "stage3_yml (main env order fs) = fs"
    by (rule conjunct2 [OF unchanged])
next
  assume "writes (main env order fs) \<noteq> []"
  then obtain doc tbl dat where
    doc: "fetchFileContents env ''tc39'' ''proposals'' ''README.md'' = Inr doc"
    and tbl: "jsonTblOf env doc = Inr tbl"
    and rows: "map (\<lambda>row. snd (prpslRcrd env doc fs row)) tbl = map Inr dat"
    using main_written by blast
  from doc assms(1) have d: "doc = proposalsReadmeMd"
    by simp
  with tbl assms(2) have t: "tbl = jsonTbl"
    by simp
  show "\<forall>v\<in>set jsonTbl. \<exists>r. snd (prpslRcrd env proposalsReadmeMd fs v) = Inr r"
  proof
    fix v
    assume "v \<in> set jsonTbl"
    then have "snd (prpslRcrd env proposalsReadmeMd fs v)
        \<in> set (map (\<lambda>row. snd (prpslRcrd env proposalsReadmeMd fs row)) jsonTbl)"
      by simp
    then have "snd (prpslRcrd env proposalsReadmeMd fs v) \<in> set (map Inr dat)"
      using rows unfolding d t by simp
    then show "\<exists>r. snd (prpslRcrd env proposalsReadmeMd fs v) = Inr r"
      by auto
  qed
qed

theorem no_write_when_a_row_fails_witness:
  "snd (prpslRcrd failingEnv exampleReadme (Some ''old'') barCells) = Inl (Rejected ''Not Found'')
   \<and> writes (main failingEnv [1, 0] (Some ''old'')) = []
   \<and> stage3_yml (main failingEnv [1, 0] (Some ''old'')) = Some ''old''
   \<and> writes (main exampleEnv [1, 0] (Some ''old'')) = [''foo\<newline>bar\<newline>'']
   \<and> snd (prpslRcrd exampleEnv exampleReadme (Some ''old'') fooCells) = Inr fooRecord
   \<and> snd (prpslRcrd exampleEnv exampleReadme (Some ''old'') barCells) = Inr barRecord"
  using no_write_when_a_row_fails [OF failing_readme_fetched failing_table,
      of barCells "Some ''old''" "Rejected ''Not Found''" "[1, 0]"]
    no_write_when_a_row_fails [OF example_readme_fetched example_table,
      of barCells "Some ''old''" "Rejected ''Not Found''" "[1, 0]"]
    example_run
  by (simp add: failing_bar_record example_foo_record example_bar_record)

text \<open>
  Claim C6. Let the README be fetched and the table be read, let the record of every row
  resolve, and let the rows settle in any order. Then the run writes the serialization of
  a list that has one record for each row of the table, the record of a row standing at
  the index of the row; the order in which the rows settle has no part in it.
\<close>

theorem output_records_follow_rows:
  assumes "fetchFileContents env ''tc39'' ''proposals'' ''README.md'' = Inr proposalsReadmeMd"
    and "jsonTblOf env proposalsReadmeMd = Inr jsonTbl"
    and "\<forall>v\<in>set jsonTbl. \<exists>r. snd (prpslRcrd env proposalsReadmeMd fs v) = Inr r"
    and "{..<length jsonTbl} \<subseteq> set order"
  shows "\<exists>dat. length dat = length jsonTbl
       \<and> (\<forall>i<length jsonTbl. snd (prpslRcrd env proposalsReadmeMd fs (jsonTbl ! i)) = Inr (dat ! i))
       \<and> main env order fs =
           \<lparr>stage3_yml = Some (json2yaml env (JSON_stringify env dat)),
            writes = [json2yaml env (JSON_stringify env dat)], failure = None\<rparr>"
proof -
  define dat where "dat = map (\<lambda>row. projr (snd (prpslRcrd env proposalsReadmeMd fs row))) jsonTbl"
  have row: "snd (prpslRcrd env proposalsReadmeMd fs v)
      = Inr (projr (snd (prpslRcrd env proposalsReadmeMd fs v)))" if "v \<in> set jsonTbl" for v
    using assms(3) that by force
  then have rows: "map (\<lambda>row. snd (prpslRcrd env proposalsReadmeMd fs row)) jsonTbl = map Inr dat"
    unfolding dat_def by simp
  have "length dat = length jsonTbl"
    unfolding dat_def by simp
  moreover have "\<forall>i<length jsonTbl.
      snd (prpslRcrd env proposalsReadmeMd fs (jsonTbl ! i)) = Inr (dat ! i)"
    unfolding dat_def using row by simp
  moreover have "main env order fs =
      \<lparr>stage3_yml = Some (json2yaml env (JSON_stringify env dat)),
       writes = [json2yaml env (JSON_stringify env dat)], failure = None\<rparr>"
    by (rule main_writes_rows [OF assms(1,2,4) rows])
  ultimately show ?thesis
    by blast
qed

theorem output_records_follow_rows_witness:
  "main exampleEnv [1, 0] (Some ''old'') =
     \<lparr>stage3_yml = Some ''foo\<newline>bar\<newline>'', writes = [''foo\<newline>bar\<newline>''], failure = None\<rparr>
   \<and> main exampleEnv [0, 1] (Some ''old'') =
     \<lparr>stage3_yml = Some ''foo\<newline>bar\<newline>'', writes = [''foo\<newline>bar\<newline>''], failure = None\<rparr>"
proof -
  have rows: "\<forall>v\<in>set [fooCells, barCells].
      \<exists>r. snd (prpslRcrd exampleEnv exampleReadme (Some ''old'') v) = Inr r"
    by (simp add: example_foo_record example_bar_record)
  have run: "main exampleEnv order (Some ''old'') =
      \<lparr>stage3_yml = Some ''foo\<newline>bar\<newline>'', writes = [''foo\<newline>bar\<newline>''], failure = None\<rparr>"
    if cover: "{..<length [fooCells, barCells]} \<subseteq> set order" for order
  proof -
    obtain dat where len: "length dat = length [fooCells, barCells]"
      and nth: "\<forall>i<length [fooCells, barCells].
        snd (prpslRcrd exampleEnv exampleReadme (Some ''old'') ([fooCells, barCells] ! i)) = Inr (dat ! i)"
      and written: "main exampleEnv order (Some ''old'') =
        \<lparr>stage3_yml = Some (json2yaml exampleEnv (JSON_stringify exampleEnv dat)),
         writes = [json2yaml exampleEnv (JSON_stringify exampleEnv dat)], failure = None\<rparr>"
      using output_records_follow_rows [OF example_readme_fetched example_table rows cover]
      by blast
    from len obtain a b where dat: "dat = [a, b]"
      by (auto simp: length_Suc_conv)
    from nth have "snd (prpslRcrd exampleEnv exampleReadme (Some ''old'') fooCells) = Inr (dat ! 0)"
      and "snd (prpslRcrd exampleEnv exampleReadme (Some ''old'') barCells) = Inr (dat ! 1)"
      by force+
    then have "dat = [fooRecord, barRecord]"
      unfolding dat by (simp add: example_foo_record example_bar_record)
    with written show ?thesis
      by (simp only: example_output)
  qed
  have "{..<length [fooCells, barCells]} \<subseteq> set [1, 0 :: nat]"
    and "{..<length [fooCells, barCells]} \<subseteq> set [0, 1 :: nat]"
    by auto
  then show ?thesis
    using run by blast
qed

end
